theory Spec2Isabelle
  imports Complex_Main "HOL-Library.Word"
begin

chapter \<open>The retrieval-augmented question answering service\<close>

text \<open>
  A model of the API server \<^verbatim>\<open>services/api/src/index.ts\<close>: the chunker, the embedding,
  rerank and generation clients, collection provisioning and the three HTTP handlers.
  Every axios request goes to a service outside the process; a run is a function of
  the services' answers and returns, with its result, the trace of the requests it
  has sent.  A JavaScript exception is the left part of a sum.
\<close>

section \<open>Strings as the service uses them\<close>

text \<open>
  Strings are \<^typ>\<open>string\<close> (ASCII text).  The JavaScript class \<^verbatim>\<open>\s\<close> and
  \<^verbatim>\<open>String.prototype.trim\<close> use the same white-space set; on ASCII text it is
  space, tab, line feed, vertical tab, form feed and carriage return.
\<close>

definition is_ws :: "char \<Rightarrow> bool" where
  "is_ws c = (c = CHR '' '' \<or> c = CHR 0x09 \<or> c = CHR 0x0A \<or> c = CHR 0x0B
              \<or> c = CHR 0x0C \<or> c = CHR 0x0D)"

text \<open>
  \<^verbatim>\<open>text.split(/\s+/)\<close>: every maximal run of white space is one separator, and the
  pieces between separators are returned, the piece before a leading separator
  and the piece after a trailing one included (both are the empty string).
  The empty text has no separator, so the result is the one-element list holding
  the empty string.  \<open>split_from cur s\<close> scans \<open>s\<close> with \<open>cur\<close> the piece read so far.
\<close>

function split_from :: "string \<Rightarrow> string \<Rightarrow> string list" where
  "split_from cur [] = [cur]"
| "split_from cur (c # cs) =
     (if is_ws c then cur # split_from [] (dropWhile is_ws cs)
      else split_from (cur @ [c]) cs)"
  by pat_completeness auto
termination
  by (relation "measure (\<lambda>(cur, s). length s)")
     (auto simp: le_imp_less_Suc length_dropWhile_le)

definition split_ws :: "string \<Rightarrow> string list" where
  "split_ws s = split_from [] s"

text \<open>\<^verbatim>\<open>Array.prototype.join(sep)\<close> on an array of strings.\<close>

fun join :: "string \<Rightarrow> string list \<Rightarrow> string" where
  "join sep [] = []"
| "join sep [x] = x"
| "join sep (x # y # ys) = x @ sep @ join sep (y # ys)"

text \<open>\<^verbatim>\<open>String.prototype.trim\<close>.\<close>

definition trim :: "string \<Rightarrow> string" where
  "trim s = rev (dropWhile is_ws (rev (dropWhile is_ws s)))"

text \<open>Decimal rendering of a natural number, as a template literal prints it.\<close>

fun show_nat :: "nat \<Rightarrow> string" where
  "show_nat n =
     (if n < 10 then [''0123456789'' ! n]
      else show_nat (n div 10) @ [''0123456789'' ! (n mod 10)])"

section \<open>The chunker\<close>

text \<open>
  The body of the \<^verbatim>\<open>for (const word of words)\<close> loop of \<^verbatim>\<open>chunkText\<close>, with the three
  loop variables \<^verbatim>\<open>chunks\<close>, \<^verbatim>\<open>current\<close> and \<^verbatim>\<open>count\<close> passed along; the result is the
  pair of \<^verbatim>\<open>chunks\<close> and \<^verbatim>\<open>current\<close> when the loop ends.
\<close>

fun chunk_loop ::
  "int \<Rightarrow> string list \<Rightarrow> string list \<Rightarrow> int \<Rightarrow> string list \<Rightarrow> string list \<times> string list"
where
  "chunk_loop maxTokens chunks current count [] = (chunks, current)"
| "chunk_loop maxTokens chunks current count (word # rest) =
     (let current' = current @ [word]; count' = count + 1
      in if count' \<ge> maxTokens
         then chunk_loop maxTokens (chunks @ [join '' '' current']) [] 0 rest
         else chunk_loop maxTokens chunks current' count' rest)"

definition chunkText :: "string \<Rightarrow> int \<Rightarrow> string list" where
  "chunkText text maxTokens =
     (let words = split_ws text;
          (chunks, current) = chunk_loop maxTokens [] [] 0 words
      in if length current > 0 then chunks @ [join '' '' current] else chunks)"

text \<open>
  The same loop on groups of words, before they are joined: \<open>chunk_groups\<close> returns the
  list of the \<^verbatim>\<open>current\<close> arrays that \<^verbatim>\<open>chunkText\<close> joins and pushes.
\<close>

fun group_loop ::
  "int \<Rightarrow> string list list \<Rightarrow> string list \<Rightarrow> int \<Rightarrow> string list
     \<Rightarrow> string list list \<times> string list"
where
  "group_loop maxTokens groups current count [] = (groups, current)"
| "group_loop maxTokens groups current count (word # rest) =
     (let current' = current @ [word]; count' = count + 1
      in if count' \<ge> maxTokens
         then group_loop maxTokens (groups @ [current']) [] 0 rest
         else group_loop maxTokens groups current' count' rest)"

definition chunk_groups :: "string list \<Rightarrow> int \<Rightarrow> string list list" where
  "chunk_groups words maxTokens =
     (let (groups, current) = group_loop maxTokens [] [] 0 words
      in if length current > 0 then groups @ [current] else groups)"

section \<open>Configuration, requests and the data that travels\<close>

text \<open>
  The module-level constants read from the environment.  The base URLs of the
  embedding service, the language model and the vector store, the collection name
  and the port only say where a request goes; a request is identified here by its
  kind (see \<open>call\<close> below), so they are left out.  An unset \<^verbatim>\<open>RERANK_BASE_URL\<close> is the
  empty string.  \<^verbatim>\<open>LLM_PROVIDER\<close> is already lower-cased.
\<close>

record config =
  RERANK_BASE_URL :: string
  LLM_PROVIDER :: string
  LLM_MODEL :: string
  TOP_K :: int
  MAX_CONTEXT :: int

type_synonym vector = "real list"

text \<open>
  A point id of the vector store is an unsigned integer or a string (a UUID).  The
  handler reads it from parsed JSON, where a number is a double: the numeric ids of
  the model are the integers below \<open>2 ^ 53\<close>, which a double holds exactly and
  \<^verbatim>\<open>toString\<close> prints digit by digit.  \<^verbatim>\<open>toString\<close> of a string id is the string.
\<close>

datatype point_id = IdNum "53 word" | IdStr string

fun id_toString :: "point_id \<Rightarrow> string" where
  "id_toString (IdNum n) = show_nat (unat n)"
| "id_toString (IdStr s) = s"

record payload =
  payload_documentId :: string
  payload_category :: string
  payload_text :: string
  payload_title :: string

record point =
  point_id :: string
  point_payload :: payload
  point_vector :: "vector option"

text \<open>A search hit; the code never reads its similarity score.\<close>

record hit =
  hit_id :: point_id
  hit_payload :: payload

record citation =
  documentId :: string
  chunkId :: string


record chat_request =
  req_query :: "string option"
  req_filter_category :: "string option"

text \<open>JavaScript truth of an optional string: missing and empty are falsy.\<close>

definition truthy :: "string option \<Rightarrow> bool" where
  "truthy v = (case v of None \<Rightarrow> False | Some s \<Rightarrow> s \<noteq> [])"

section \<open>The network\<close>

text \<open>
  Every request the service sends with axios, with the part of its body that the
  code builds: collection lookup and creation (vector size, distance), embedding
  (\<^verbatim>\<open>inputs\<close>), upsert (\<^verbatim>\<open>points\<close>), search (\<^verbatim>\<open>vector\<close>, \<^verbatim>\<open>top\<close> and the category of the
  filter, \<open>None\<close> when \<^verbatim>\<open>filter\<close> is undefined), rerank (\<^verbatim>\<open>query\<close>, \<^verbatim>\<open>texts\<close>) and the two
  generation protocols (\<^verbatim>\<open>model\<close> and the prompt).
\<close>

datatype call =
    GetCollection
  | PutCollection nat string
  | PostEmbed "string list"
  | PutPoints "point list"
  | PostSearch "vector option" int "string option"
  | PostRerank string "string list"
  | PostGenerate string string
  | PostChatCompletions string string

text \<open>
  A candidate completion: reading \<^verbatim>\<open>.message.content\<close> throws when the candidate has
  no \<^verbatim>\<open>message\<close>, and gives undefined (\<open>None\<close>) when the message has no \<^verbatim>\<open>content\<close>.
\<close>

datatype choice = NoMessage | Message "string option"

text \<open>
  The members of a response object that the code reads.  \<^verbatim>\<open>embeddings\<close> and \<^verbatim>\<open>scores\<close>
  are \<open>None\<close> when \<^verbatim>\<open>Array.isArray\<close> is false of them, \<^verbatim>\<open>result\<close> and \<^verbatim>\<open>choices\<close> when they
  are missing or falsy, \<^verbatim>\<open>response\<close> when it is undefined.  A member that is present has
  the type its service documents: \<^verbatim>\<open>embeddings\<close> an array of vectors, \<^verbatim>\<open>scores\<close> an array
  of finite numbers, \<^verbatim>\<open>result\<close> an array of hits with id and payload, \<^verbatim>\<open>response\<close> a
  string, \<^verbatim>\<open>choices\<close> an array of candidates.  The order of two finite numbers is the
  order of the reals, and the sign of their floating-point difference is the sign of
  their difference, so the scores are modelled as reals.
\<close>

record response_object =
  embeddings :: "vector list option"
  scores :: "real list option"
  result :: "hit list option"
  response :: "string option"
  choices :: "choice list option"

text \<open>
  \<^verbatim>\<open>res.data\<close>: null or undefined (reading a member throws), another falsy value
  such as the empty string of an empty body (reading a member gives undefined), or
  an object (a truthy value that is not an object, such as a page of text, reads as
  an object without members).
\<close>

datatype data = Nullish | FalsyData | Obj response_object

text \<open>
  An axios call rejects (connection error, timeout, status outside 2xx) or resolves
  with \<^verbatim>\<open>res.data\<close>.
\<close>

datatype outcome = Rejected | Resolved data

text \<open>
  The services outside the process: what a request is answered with may depend on
  everything that was sent and answered before.  The trace is the list of requests
  sent so far, each with its outcome.
\<close>

type_synonym trace = "(call \<times> outcome) list"
type_synonym world = "trace \<Rightarrow> call \<Rightarrow> outcome"

datatype js_error = AxiosError | TypeError | Error string

definition http :: "world \<Rightarrow> trace \<Rightarrow> call \<Rightarrow> (js_error + data) \<times> trace" where
  "http w t c =
     (let r = w t c
      in (case r of Rejected \<Rightarrow> Inl AxiosError | Resolved d \<Rightarrow> Inr d, t @ [(c, r)]))"

section \<open>Collection provisioning\<close>

definition ensureCollection :: "world \<Rightarrow> trace \<Rightarrow> (js_error + unit) \<times> trace" where
  "ensureCollection w t =
     (case http w t GetCollection of
        (Inr _, t1) \<Rightarrow> (Inr (), t1)
      | (Inl err, t1) \<Rightarrow>
          (case http w t1 (PutCollection 1024 ''Cosine'') of
             (Inr _, t2) \<Rightarrow> (Inr (), t2)
           | (Inl e, t2) \<Rightarrow> (Inl e, t2)))"

section \<open>Embedding\<close>

definition embedTexts ::
  "world \<Rightarrow> trace \<Rightarrow> string list \<Rightarrow> (js_error + vector list) \<times> trace" where
  "embedTexts w t texts =
     (case http w t (PostEmbed texts) of
        (Inl err, t1) \<Rightarrow> (Inl err, t1)
      | (Inr d, t1) \<Rightarrow>
          (case d of
             Obj obj \<Rightarrow>
               (case embeddings obj of
                  Some vs \<Rightarrow> (Inr vs, t1)
                | None \<Rightarrow> (Inl (Error ''Invalid response from embeddings service''), t1))
           | _ \<Rightarrow> (Inl (Error ''Invalid response from embeddings service''), t1)))"

section \<open>Reranking\<close>

text \<open>
  \<^verbatim>\<open>Array.prototype.sort(comparefn)\<close> is a stable sort: \<open>x\<close> comes before \<open>y\<close> when
  \<open>comparefn x y < 0\<close>, and elements that compare equal keep their order.  Each element,
  from the last to the first, is put in front of the first element of the sorted
  rest that it need not follow.
\<close>

fun sort_insert :: "('a \<Rightarrow> 'a \<Rightarrow> real) \<Rightarrow> 'a \<Rightarrow> 'a list \<Rightarrow> 'a list" where
  "sort_insert comparefn x [] = [x]"
| "sort_insert comparefn x (y # ys) =
     (if comparefn x y \<le> 0 then x # y # ys else y # sort_insert comparefn x ys)"

definition js_sort :: "('a \<Rightarrow> 'a \<Rightarrow> real) \<Rightarrow> 'a list \<Rightarrow> 'a list" where
  "js_sort comparefn xs = foldr (sort_insert comparefn) xs []"

text \<open>\<^verbatim>\<open>contexts.map((_, idx) => idx)\<close>.\<close>

definition identity_order :: "'a list \<Rightarrow> nat list" where
  "identity_order contexts = [0..<length contexts]"

text \<open>
  \<^verbatim>\<open>scores.map((score, idx) => ({ score, idx })).sort((a, b) => b.score - a.score)
  .map(item => item.idx)\<close>; an item is the pair of its score and its index.
\<close>

definition order_by_scores :: "real list \<Rightarrow> nat list" where
  "order_by_scores scs =
     map snd (js_sort (\<lambda>a b. fst b - fst a) (zip scs [0..<length scs]))"

definition rerankContexts ::
  "config \<Rightarrow> world \<Rightarrow> trace \<Rightarrow> string \<Rightarrow> string list \<Rightarrow> nat list \<times> trace" where
  "rerankContexts cfg w t query contexts =
     (if RERANK_BASE_URL cfg = [] then (identity_order contexts, t)
      else
        (case http w t (PostRerank query contexts) of
           (Inl err, t1) \<Rightarrow> (identity_order contexts, t1)
         | (Inr d, t1) \<Rightarrow>
             (case d of
                Obj obj \<Rightarrow>
                  (case scores obj of
                     Some scs \<Rightarrow> (order_by_scores scs, t1)
                   | None \<Rightarrow> (identity_order contexts, t1))
              | _ \<Rightarrow> (identity_order contexts, t1))))"

section \<open>Generation\<close>

text \<open>
  The value returned is \<^verbatim>\<open>res.data.response\<close> or \<^verbatim>\<open>choices[0].message.content\<close> as it
  is, so it may be undefined (\<open>None\<close>).
\<close>

definition generateAnswer ::
  "config \<Rightarrow> world \<Rightarrow> trace \<Rightarrow> string \<Rightarrow> (js_error + string option) \<times> trace" where
  "generateAnswer cfg w t prompt =
     (if LLM_PROVIDER cfg = ''ollama'' then
        (case http w t (PostGenerate (LLM_MODEL cfg) prompt) of
           (Inl err, t1) \<Rightarrow> (Inl err, t1)
         | (Inr d, t1) \<Rightarrow>
             (case d of
                Nullish \<Rightarrow> (Inl TypeError, t1)
              | FalsyData \<Rightarrow> (Inr None, t1)
              | Obj obj \<Rightarrow> (Inr (response obj), t1)))
      else
        (case http w t (PostChatCompletions (LLM_MODEL cfg) prompt) of
           (Inl err, t1) \<Rightarrow> (Inl err, t1)
         | (Inr d, t1) \<Rightarrow>
             (case d of
                Obj obj \<Rightarrow>
                  (case choices obj of
                     Some (c # cs) \<Rightarrow>
                       (case c of
                          NoMessage \<Rightarrow> (Inl TypeError, t1)
                        | Message content \<Rightarrow> (Inr content, t1))
                   | _ \<Rightarrow> (Inl (Error ''Invalid response from LLM provider''), t1))
              | _ \<Rightarrow> (Inl (Error ''Invalid response from LLM provider''), t1))))"

section \<open>The HTTP handlers\<close>

datatype body =
    ErrorBody string
  | IngestResponse string nat
  | ChatResponse string "citation list"
  | StatusBody string
  | Uncaught js_error

text \<open>
  \<^verbatim>\<open>reply.status(n).send(b)\<close>; \<^verbatim>\<open>reply.send(b)\<close> has status 200.  When a handler throws
  outside its \<^verbatim>\<open>try\<close> block, the framework replies with status 500 and the error
  (\<open>Uncaught\<close>).
\<close>

datatype reply = Reply nat body


fun reply_body :: "reply \<Rightarrow> body" where
  "reply_body (Reply n b) = b"




text \<open>
  \<^verbatim>\<open>order.slice(0, MAX_CONTEXT)\<close>: a negative end counts from the end of the array.
\<close>

definition slice0 :: "'a list \<Rightarrow> int \<Rightarrow> 'a list" where
  "slice0 xs e =
     (if e < 0 then take (nat (int (length xs) + e)) xs else take (nat e) xs)"

text \<open>\<^verbatim>\<open>contexts[i]\<close>: undefined (\<open>None\<close>) out of range.\<close>

definition index :: "'a list \<Rightarrow> nat \<Rightarrow> 'a option" where
  "index xs i = (if i < length xs then Some (xs ! i) else None)"

text \<open>
  The citation of the hit at index \<open>i\<close>; reading \<^verbatim>\<open>hits[i].payload\<close> throws when there is
  no such hit.
\<close>

definition cite :: "hit list \<Rightarrow> nat \<Rightarrow> js_error + citation" where
  "cite hits i =
     (case index hits i of
        None \<Rightarrow> Inl TypeError
      | Some h \<Rightarrow>
          Inr \<lparr>documentId = payload_documentId (hit_payload h),
               chunkId = id_toString (hit_id h)\<rparr>)"

text \<open>\<^verbatim>\<open>Array.prototype.map\<close> with a callback that may throw: the first throw ends it.\<close>

fun map_throwing :: "('a \<Rightarrow> js_error + 'b) \<Rightarrow> 'a list \<Rightarrow> js_error + 'b list" where
  "map_throwing f [] = Inr []"
| "map_throwing f (x # xs) =
     (case f x of
        Inl e \<Rightarrow> Inl e
      | Inr y \<Rightarrow> (case map_throwing f xs of Inl e \<Rightarrow> Inl e | Inr ys \<Rightarrow> Inr (y # ys)))"

text \<open>
  One entry of the context string, \<^verbatim>\<open>`[${i + 1}] ${ctx}`\<close>; an undefined context prints
  as the word undefined.
\<close>

definition context_entry :: "string option \<Rightarrow> nat \<Rightarrow> string" where
  "context_entry ctx i =
     ''['' @ show_nat (i + 1) @ ''] '' @ (case ctx of None \<Rightarrow> ''undefined'' | Some s \<Rightarrow> s)"

definition context_entries :: "string option list \<Rightarrow> string list" where
  "context_entries selectedContexts =
     map (\<lambda>(ctx, i). context_entry ctx i)
         (zip selectedContexts [0..<length selectedContexts])"

definition context_string :: "string option list \<Rightarrow> string" where
  "context_string selectedContexts =
     join [CHR 0x0A, CHR 0x0A] (context_entries selectedContexts)"

definition prompt_head :: string where
  "prompt_head =
     ''You are an institutional knowledge assistant. Use the context provided to answer the question. ''
     @ ''Respond in a concise and clear manner. Cite the source of your information using the bracketed ''
     @ ''numbers corresponding to the context. If you do not know the answer based on the context, ''
     @ ''say you don't know.''"

definition make_prompt :: "string \<Rightarrow> string \<Rightarrow> string" where
  "make_prompt contextString query =
     prompt_head @ [CHR 0x0A, CHR 0x0A] @ ''Context:'' @ [CHR 0x0A] @ contextString
     @ [CHR 0x0A, CHR 0x0A] @ ''Question: '' @ query @ [CHR 0x0A] @ ''Answer:''"

definition no_information_answer :: string where
  "no_information_answer =
     ''I'm so'' @ ''rry, I couldn't find any information relevant to your question.''"

text \<open>
  The \<^verbatim>\<open>try\<close> block of the query handler, in two parts.  The first runs up to the
  search and gives the hits, \<^verbatim>\<open>searchRes.data?.result || []\<close>.
\<close>

definition search_filter :: "string option \<Rightarrow> string option" where
  "search_filter cat = (if truthy cat then cat else None)"

definition chat_query_hits ::
  "config \<Rightarrow> world \<Rightarrow> trace \<Rightarrow> string \<Rightarrow> string option \<Rightarrow> (js_error + hit list) \<times> trace"
where
  "chat_query_hits cfg w t query cat =
     (case ensureCollection w t of
        (Inl e, t1) \<Rightarrow> (Inl e, t1)
      | (Inr _, t1) \<Rightarrow>
          (case embedTexts w t1 [query] of
             (Inl e, t2) \<Rightarrow> (Inl e, t2)
           | (Inr vs, t2) \<Rightarrow>
               (let queryVector = index vs 0; filter = search_filter cat
                in case http w t2 (PostSearch queryVector (TOP_K cfg) filter) of
                     (Inl e, t3) \<Rightarrow> (Inl e, t3)
                   | (Inr d, t3) \<Rightarrow>
                       (case d of
                          Obj obj \<Rightarrow>
                            (case result obj of
                               Some hits \<Rightarrow> (Inr hits, t3)
                             | None \<Rightarrow> (Inr [], t3))
                        | _ \<Rightarrow> (Inr [], t3)))))"

text \<open>The second part is what the handler does with a non-empty list of hits.\<close>

definition chat_query_answer ::
  "config \<Rightarrow> world \<Rightarrow> trace \<Rightarrow> string \<Rightarrow> hit list \<Rightarrow> (js_error + reply) \<times> trace" where
  "chat_query_answer cfg w t query hits =
     (let contexts = map (\<lambda>h. payload_text (hit_payload h)) hits
      in case rerankContexts cfg w t query contexts of
           (order, t1) \<Rightarrow>
             (let selectedIndices = slice0 order (MAX_CONTEXT cfg);
                  selectedContexts = map (index contexts) selectedIndices
              in case map_throwing (cite hits) selectedIndices of
                   Inl e \<Rightarrow> (Inl e, t1)
                 | Inr citations \<Rightarrow>
                     (let prompt = make_prompt (context_string selectedContexts) query
                      in case generateAnswer cfg w t1 prompt of
                           (Inl e, t2) \<Rightarrow> (Inl e, t2)
                         | (Inr rawAnswer, t2) \<Rightarrow>
                             (case rawAnswer of
                                None \<Rightarrow> (Inl TypeError, t2)
                              | Some a \<Rightarrow>
                                  (Inr (Reply 200 (ChatResponse (trim a) citations)), t2)))))"

definition chat_query_try ::
  "config \<Rightarrow> world \<Rightarrow> trace \<Rightarrow> string \<Rightarrow> string option \<Rightarrow> (js_error + reply) \<times> trace" where
  "chat_query_try cfg w t query cat =
     (case chat_query_hits cfg w t query cat of
        (Inl e, t1) \<Rightarrow> (Inl e, t1)
      | (Inr hits, t1) \<Rightarrow>
          (if length hits = 0
           then (Inr (Reply 200 (ChatResponse no_information_answer [])), t1)
           else chat_query_answer cfg w t1 query hits))"

definition chat_query ::
  "config \<Rightarrow> world \<Rightarrow> trace \<Rightarrow> chat_request option \<Rightarrow> reply \<times> trace" where
  "chat_query cfg w t request_body =
     (case request_body of
        None \<Rightarrow> (Reply 500 (Uncaught TypeError), t)
      | Some req \<Rightarrow>
          (if \<not> truthy (req_query req)
           then (Reply 400 (ErrorBody ''query is required''), t)
           else
             (case chat_query_try cfg w t (the (req_query req)) (req_filter_category req) of
                (Inl err, t1) \<Rightarrow> (Reply 500 (ErrorBody ''Failed to process chat query''), t1)
              | (Inr r, t1) \<Rightarrow> (r, t1))))"

definition healthz :: "world \<Rightarrow> trace \<Rightarrow> reply \<times> trace" where
  "healthz w t =
     (case ensureCollection w t of
        (Inl e, t1) \<Rightarrow> (Reply 500 (StatusBody ''error''), t1)
      | (Inr _, t1) \<Rightarrow> (Reply 200 (StatusBody ''ok''), t1))"

section \<open>What a run sends\<close>

text \<open>The requests sent between two traces of one run, the earlier one first.\<close>

definition sent_since :: "trace \<Rightarrow> trace \<Rightarrow> call list" where
  "sent_since t t1 = map fst (drop (length t) t1)"

fun is_creation :: "call \<Rightarrow> bool" where
  "is_creation (PutCollection n d) = True"
| "is_creation c = False"

fun is_rerank :: "call \<Rightarrow> bool" where
  "is_rerank (PostRerank q ts) = True"
| "is_rerank c = False"

fun is_generation :: "call \<Rightarrow> bool" where
  "is_generation (PostGenerate m p) = True"
| "is_generation (PostChatCompletions m p) = True"
| "is_generation c = False"

definition creation_requests :: "call list \<Rightarrow> nat" where
  "creation_requests cs = length (filter is_creation cs)"

text \<open>The request \<^verbatim>\<open>generateAnswer\<close> sends for a prompt under the configured provider.\<close>

definition generation_request :: "config \<Rightarrow> string \<Rightarrow> call" where
  "generation_request cfg prompt =
     (if LLM_PROVIDER cfg = ''ollama'' then PostGenerate (LLM_MODEL cfg) prompt
      else PostChatCompletions (LLM_MODEL cfg) prompt)"

text \<open>Two calls of \<^verbatim>\<open>ensureCollection\<close> in sequence: a throw of the first ends the sequence.\<close>

definition ensureCollection_twice :: "world \<Rightarrow> trace \<Rightarrow> (js_error + unit) \<times> trace" where
  "ensureCollection_twice w t =
     (case ensureCollection w t of
        (Inl e, t1) \<Rightarrow> (Inl e, t1)
      | (Inr _, t1) \<Rightarrow> ensureCollection w t1)"

text \<open>
  The vector store is not part of the repository.  What the idempotence of
  \<^verbatim>\<open>ensureCollection\<close> needs of it: once a lookup or a creation of the collection has
  succeeded, every later lookup succeeds (collections are not deleted).
\<close>

definition collection_seen :: "trace \<Rightarrow> bool" where
  "collection_seen t =
     list_ex (\<lambda>(c, r). (c = GetCollection \<or> is_creation c) \<and> r \<noteq> Rejected) t"

definition faithful_store :: "world \<Rightarrow> bool" where
  "faithful_store w = (\<forall>t. collection_seen t \<longrightarrow> w t GetCollection \<noteq> Rejected)"

text \<open>
  The order the stable descending sort puts two items in: the higher score first, and
  of two equal scores the lower index first.
\<close>

definition before :: "real \<times> nat \<Rightarrow> real \<times> nat \<Rightarrow> bool" where
  "before a b = (fst a > fst b \<or> (fst a = fst b \<and> snd a < snd b))"

section \<open>Example services\<close>

definition no_members :: response_object where
  "no_members =
     \<lparr>embeddings = None, scores = None, result = None, response = None, choices = None\<rparr>"

text \<open>
  Services that always answer: the rerank and the generation service with the given
  outcomes, the search with the given hits, the embedding service with one vector
  per input, the vector store with an empty object.
\<close>

definition service_world :: "outcome \<Rightarrow> outcome \<Rightarrow> hit list \<Rightarrow> world" where
  "service_world reranked generated hits t c =
     (case c of
        PostEmbed ts \<Rightarrow>
          Resolved (Obj (no_members\<lparr>embeddings := Some (map (\<lambda>x. [0.5, 0.25]) ts)\<rparr>))
      | PostSearch v k f \<Rightarrow> Resolved (Obj (no_members\<lparr>result := Some hits\<rparr>))
      | PostRerank q ts \<Rightarrow> reranked
      | PostGenerate m p \<Rightarrow> generated
      | PostChatCompletions m p \<Rightarrow> generated
      | _ \<Rightarrow> Resolved (Obj no_members))"

text \<open>A vector store that starts without the collection and keeps it once created.\<close>

definition fresh_store :: world where
  "fresh_store t c =
     (case c of
        GetCollection \<Rightarrow> if collection_seen t then Resolved (Obj no_members) else Rejected
      | PutCollection n d \<Rightarrow> Resolved (Obj no_members)
      | _ \<Rightarrow> Rejected)"

definition example_hit :: "point_id \<Rightarrow> string \<Rightarrow> string \<Rightarrow> hit" where
  "example_hit n doc txt =
     \<lparr>hit_id = n,
      hit_payload = \<lparr>payload_documentId = doc, payload_category = ''hr'',
                     payload_text = txt, payload_title = []\<rparr>\<rparr>"

definition five_hits :: "hit list" where
  "five_hits =
     [example_hit (IdStr ''9f1c'') ''d0'' ''alpha'', example_hit (IdNum 11) ''d1'' ''beta'',
      example_hit (IdNum 12) ''d2'' ''gamma'', example_hit (IdNum 13) ''d3'' ''delta'',
      example_hit (IdNum 14) ''d4'' ''epsilon'']"

definition scores_outcome :: "real list \<Rightarrow> outcome" where
  "scores_outcome scs = Resolved (Obj (no_members\<lparr>scores := Some scs\<rparr>))"

definition text_outcome :: "string \<Rightarrow> outcome" where
  "text_outcome s = Resolved (Obj (no_members\<lparr>response := Some s\<rparr>))"

definition rerank_config :: config where
  "rerank_config =
     \<lparr>RERANK_BASE_URL = ''http://localhost:8081'', LLM_PROVIDER = ''ollama'',
      LLM_MODEL = ''llama3.1:8b-instruct'', TOP_K = 20, MAX_CONTEXT = 3\<rparr>"

text \<open>The defaults of the module-level constants.\<close>

definition default_config :: config where
  "default_config =
     \<lparr>RERANK_BASE_URL = [], LLM_PROVIDER = ''ollama'',
      LLM_MODEL = ''llama3.1:8b-instruct'', TOP_K = 20, MAX_CONTEXT = 8\<rparr>"

section \<open>Facts about the sort and the rerank order\<close>

lemma set_sort_insert: "set (sort_insert f x ys) = insert x (set ys)"
  by (induction ys) auto

lemma length_sort_insert: "length (sort_insert f x ys) = Suc (length ys)"
  by (induction ys) auto

lemma distinct_sort_insert: "distinct (sort_insert f x ys) = (x \<notin> set ys \<and> distinct ys)"
  by (induction ys) (auto simp: set_sort_insert)

lemma set_js_sort: "set (js_sort f xs) = set xs"
  by (induction xs) (auto simp: js_sort_def set_sort_insert)

lemma length_js_sort: "length (js_sort f xs) = length xs"
  by (induction xs) (auto simp: js_sort_def length_sort_insert)

lemma distinct_js_sort: "distinct (js_sort f xs) = distinct xs"
proof (induction xs)
  case Nil
  show ?case by (simp add: js_sort_def)
next
  case (Cons x xs)
  have "js_sort f (x # xs) = sort_insert f x (js_sort f xs)"
    by (simp add: js_sort_def)
  with Cons show ?case
    by (simp add: distinct_sort_insert set_js_sort)
qed

lemma sorted_sort_insert:
  "sorted_wrt before ys \<Longrightarrow> \<forall>y\<in>set ys. snd x < snd y \<Longrightarrow>
   sorted_wrt before (sort_insert (\<lambda>a b. fst b - fst a) x ys)"
proof (induction ys)
  case Nil
  show ?case by simp
next
  case (Cons y ys)
  show ?case
  proof (cases "fst y - fst x \<le> 0")
    case True
    have "before x z" if "z \<in> set (y # ys)" for z
    proof -
      have "fst z \<le> fst y" using that Cons.prems(1) by (auto simp: before_def)
      moreover have "snd x < snd z" using that Cons.prems(2) by auto
      ultimately show ?thesis using True by (auto simp: before_def)
    qed
    with True Cons.prems(1) show ?thesis by simp
  next
    case False
    then have "before y x" by (simp add: before_def)
    with False Cons show ?thesis by (auto simp: set_sort_insert)
  qed
qed

lemma sorted_js_sort:
  "sorted_wrt (\<lambda>a b. snd a < snd b) xs \<Longrightarrow>
   sorted_wrt before (js_sort (\<lambda>a b. fst b - fst a) xs)"
proof (induction xs)
  case Nil
  show ?case by (simp add: js_sort_def)
next
  case (Cons x xs)
  have eq: "js_sort (\<lambda>a b. fst b - fst a) (x # xs)
              = sort_insert (\<lambda>a b. fst b - fst a) x (js_sort (\<lambda>a b. fst b - fst a) xs)"
    by (simp add: js_sort_def)
  from Cons show ?case
    unfolding eq by (intro sorted_sort_insert) (auto simp: set_js_sort)
qed

lemma sorted_indices: "sorted_wrt (\<lambda>a b. snd a < snd b) (zip scs [0..<length scs])"
proof -
  have "map snd (zip scs [0..<length scs]) = [0..<length scs]"
    by (rule map_snd_zip) simp
  then have "sorted_wrt (<) (map snd (zip scs [0..<length scs]))"
    by (simp only: sorted_wrt_upt)
  then show ?thesis by (simp only: sorted_wrt_map)
qed

lemma set_order_by_scores: "set (order_by_scores scs) = {0..<length scs}"
proof -
  have "set (order_by_scores scs) = snd ` set (zip scs [0..<length scs])"
    by (simp only: order_by_scores_def set_js_sort set_map)
  also have "\<dots> = set (map snd (zip scs [0..<length scs]))" by (simp only: set_map)
  also have "map snd (zip scs [0..<length scs]) = [0..<length scs]" 
    by (rule map_snd_zip) simp
  finally show ?thesis by simp
qed

lemma length_order_by_scores: "length (order_by_scores scs) = length scs"
  by (simp add: order_by_scores_def length_js_sort)

lemma distinct_order_by_scores: "distinct (order_by_scores scs)"
proof -
  have ms: "map snd (zip scs [0..<length scs]) = [0..<length scs]"
    by (rule map_snd_zip) simp
  have "distinct (map snd (zip scs [0..<length scs]))"
    by (simp only: ms distinct_upt)
  then have "distinct (zip scs [0..<length scs])" and "inj_on snd (set (zip scs [0..<length scs]))"
    by (simp_all only: distinct_map)
  then show ?thesis
    by (simp only: order_by_scores_def distinct_map distinct_js_sort set_js_sort)
qed

lemma sorted_order_by_scores:
  "sorted_wrt (\<lambda>i j. scs ! i > scs ! j \<or> (scs ! i = scs ! j \<and> i < j)) (order_by_scores scs)"
proof -
  let ?items = "js_sort (\<lambda>a b. fst b - fst a) (zip scs [0..<length scs])"
  have s: "sorted_wrt before ?items"
    by (rule sorted_js_sort) (rule sorted_indices)
  have m: "fst a = scs ! snd a" if "a \<in> set ?items" for a
  proof -
    from that have "a \<in> set (zip scs [0..<length scs])" by (simp only: set_js_sort)
    then obtain k where "a = (scs ! k, [0..<length scs] ! k)" "k < length scs"
      by (auto simp: set_zip)
    then show ?thesis by simp
  qed
  have "sorted_wrt (\<lambda>a b. scs ! snd a > scs ! snd b \<or> (scs ! snd a = scs ! snd b \<and> snd a < snd b)) ?items"
  proof (rule sorted_wrt_mono_rel [OF _ s])
    fix a b assume "a \<in> set ?items" "b \<in> set ?items" "before a b"
    then show "scs ! snd a > scs ! snd b \<or> (scs ! snd a = scs ! snd b \<and> snd a < snd b)"
      using m [of a] m [of b] by (simp add: before_def)
  qed
  then show ?thesis by (simp only: order_by_scores_def sorted_wrt_map)
qed

section \<open>Facts about what a run sends\<close>

lemma sent_since_append: "sent_since t (t @ new) = map fst new"
  by (simp add: sent_since_def)

lemma ensureCollection_cases:
  "ensureCollection w t =
     (case w t GetCollection of
        Resolved d \<Rightarrow> (Inr (), t @ [(GetCollection, Resolved d)])
      | Rejected \<Rightarrow>
          (case w (t @ [(GetCollection, Rejected)]) (PutCollection 1024 ''Cosine'') of
             Resolved d \<Rightarrow>
               (Inr (), t @ [(GetCollection, Rejected), (PutCollection 1024 ''Cosine'', Resolved d)])
           | Rejected \<Rightarrow>
               (Inl AxiosError, t @ [(GetCollection, Rejected), (PutCollection 1024 ''Cosine'', Rejected)])))"
  by (simp add: ensureCollection_def http_def Let_def split: outcome.splits)

lemma ensureCollection_sent:
  "ensureCollection w t = (r, t1) \<Longrightarrow>
   \<exists>new. t1 = t @ new \<and> (\<forall>c\<in>set (map fst new). c = GetCollection \<or> is_creation c)"
  by (auto simp: ensureCollection_cases split: outcome.splits)

lemma embedTexts_sent:
  "embedTexts w t texts = (r, t1) \<Longrightarrow> t1 = t @ [(PostEmbed texts, w t (PostEmbed texts))]"
  by (auto simp: embedTexts_def http_def Let_def split: outcome.splits data.splits option.splits)

lemma chat_query_hits_sent:
  assumes "chat_query_hits cfg w t query cat = (r, t1)"
  shows "\<exists>new. t1 = t @ new \<and>
           (\<forall>c\<in>set (map fst new). c = GetCollection \<or> is_creation c \<or> (\<exists>ts. c = PostEmbed ts)
               \<or> (\<exists>v k. c = PostSearch v k (search_filter cat)))"
proof (cases "ensureCollection w t")
  case (Pair r0 t0)
  from ensureCollection_sent [OF Pair] obtain n0 where
    n0: "t0 = t @ n0" "\<forall>c\<in>set (map fst n0). c = GetCollection \<or> is_creation c" by blast
  show ?thesis
  proof (cases r0)
    case (Inl e)
    with Pair assms have "t1 = t0" by (simp add: chat_query_hits_def)
    with n0 show ?thesis by auto
  next
    case (Inr u)
    show ?thesis
    proof (cases "embedTexts w t0 [query]")
      case (Pair r2 t2)
      note P2 = this
      from embedTexts_sent [OF Pair] have t2: "t2 = t0 @ [(PostEmbed [query], w t0 (PostEmbed [query]))]" .
      show ?thesis
      proof (cases r2)
        case (Inl e)
        with \<open>ensureCollection w t = (r0, t0)\<close> Inr P2 assms have "t1 = t2"
          by (simp add: chat_query_hits_def)
        with n0 t2 show ?thesis by auto
      next
        case (Inr vs)
        let ?c = "PostSearch (index vs 0) (TOP_K cfg) (search_filter cat)"
        from \<open>ensureCollection w t = (r0, t0)\<close> \<open>r0 = Inr u\<close> P2 Inr assms
        have "t1 = t2 @ [(?c, w t2 ?c)]"
          by (auto simp: chat_query_hits_def http_def Let_def split: outcome.splits data.splits option.splits)
        with n0 t2 show ?thesis by auto
      qed
    qed
  qed
qed

lemma rerankContexts_sent:
  "rerankContexts cfg w t query contexts = (order, t1) \<Longrightarrow>
   t1 = (if RERANK_BASE_URL cfg = [] then t
         else t @ [(PostRerank query contexts, w t (PostRerank query contexts))])"
  by (auto simp: rerankContexts_def http_def Let_def
           split: if_splits outcome.splits data.splits option.splits)

lemma generateAnswer_sent:
  "generateAnswer cfg w t prompt = (r, t1) \<Longrightarrow>
   t1 = t @ [(generation_request cfg prompt, w t (generation_request cfg prompt))]"
  by (auto simp: generateAnswer_def generation_request_def http_def Let_def
           split: if_splits outcome.splits data.splits option.splits list.splits choice.splits)

lemma map_throwing_cite:
  "map_throwing (cite hits) sel = Inr cs \<Longrightarrow>
   (\<forall>i\<in>set sel. i < length hits) \<and>
   cs = map (\<lambda>i. \<lparr>documentId = payload_documentId (hit_payload (hits ! i)),
                    chunkId = id_toString (hit_id (hits ! i))\<rparr>) sel"
proof (induction sel arbitrary: cs)
  case Nil
  then show ?case by simp
next
  case (Cons i sel)
  from Cons.prems obtain c cs' where
    c: "cite hits i = Inr c" and cs': "map_throwing (cite hits) sel = Inr cs'" and "cs = c # cs'"
    by (auto split: sum.splits)
  from c have "i < length hits"
    and "c = \<lparr>documentId = payload_documentId (hit_payload (hits ! i)),
               chunkId = id_toString (hit_id (hits ! i))\<rparr>"
    by (auto simp: cite_def index_def split: if_splits)
  with Cons.IH [OF cs'] \<open>cs = c # cs'\<close> show ?case by simp
qed

lemma map_throwing_cite_in_range:
  "\<forall>i\<in>set sel. i < length hits \<Longrightarrow> \<exists>cs. map_throwing (cite hits) sel = Inr cs"
  by (induction sel) (auto simp: cite_def index_def)

lemma context_entries_nth:
  assumes "k < length sel" and "sel ! k < length hits"
  shows "context_entries (map (index (map f hits)) sel) ! k
           = ''['' @ show_nat (k + 1) @ ''] '' @ f (hits ! (sel ! k))"
  using assms by (simp add: context_entries_def context_entry_def index_def)

lemma length_context_entries: "length (context_entries cs) = length cs"
  by (simp add: context_entries_def)

lemma chat_query_answer_success:
  assumes "chat_query_answer cfg w t query hits = (Inr r, t2)"
  defines "contexts \<equiv> map (\<lambda>h. payload_text (hit_payload h)) hits"
  defines "sel \<equiv> slice0 (fst (rerankContexts cfg w t query contexts)) (MAX_CONTEXT cfg)"
  defines "prompt \<equiv> make_prompt (context_string (map (index contexts) sel)) query"
  shows "\<exists>citations a t1. map_throwing (cite hits) sel = Inr citations \<and>
           r = Reply 200 (ChatResponse (trim a) citations) \<and>
           generateAnswer cfg w t1 prompt = (Inr (Some a), t2)"
  using assms(1) unfolding chat_query_answer_def contexts_def sel_def prompt_def Let_def
  by (auto split: prod.splits sum.splits option.splits)

lemma chat_query_answer_sent:
  assumes "chat_query_answer cfg w t query hits = (r, t2)"
  shows "\<exists>new. t2 = t @ new \<and> (\<forall>c\<in>set (map fst new). is_rerank c \<or> is_generation c)"
proof -
  let ?contexts = "map (\<lambda>h. payload_text (hit_payload h)) hits"
  obtain order t1 where rr: "rerankContexts cfg w t query ?contexts = (order, t1)"
    by (cases "rerankContexts cfg w t query ?contexts")
  from rerankContexts_sent [OF rr] obtain n1 where
    n1: "t1 = t @ n1" "\<forall>c\<in>set (map fst n1). is_rerank c"
    by (cases "RERANK_BASE_URL cfg = []") auto
  let ?sel = "slice0 order (MAX_CONTEXT cfg)"
  show ?thesis
  proof (cases "map_throwing (cite hits) ?sel")
    case (Inl e)
    with assms rr have "t2 = t1" by (simp add: chat_query_answer_def Let_def)
    with n1 show ?thesis by auto
  next
    case (Inr citations)
    let ?prompt = "make_prompt (context_string (map (index ?contexts) ?sel)) query"
    obtain g t3 where g: "generateAnswer cfg w t1 ?prompt = (g, t3)"
      by (cases "generateAnswer cfg w t1 ?prompt")
    from assms rr Inr g have "t2 = t3"
      by (auto simp: chat_query_answer_def Let_def split: sum.splits option.splits)
    moreover from generateAnswer_sent [OF g] have
      "t3 = t1 @ [(generation_request cfg ?prompt, w t1 (generation_request cfg ?prompt))]" .
    moreover have "is_generation (generation_request cfg ?prompt)"
      by (simp add: generation_request_def)
    ultimately show ?thesis using n1 by auto
  qed
qed

lemma chat_query_search_filter:
  assumes "PostSearch v k f \<in> set (sent_since t (snd (chat_query cfg w t (Some req))))"
  shows "f = search_filter (req_filter_category req)"
proof (cases "truthy (req_query req)")
  case False
  with assms show ?thesis by (simp add: chat_query_def sent_since_def)
next
  case True
  let ?q = "the (req_query req)" and ?cat = "req_filter_category req"
  obtain rh t1 where h: "chat_query_hits cfg w t ?q ?cat = (rh, t1)"
    by (cases "chat_query_hits cfg w t ?q ?cat")
  from chat_query_hits_sent [OF h] obtain n1 where
    n1: "t1 = t @ n1"
        "\<forall>c\<in>set (map fst n1). c = GetCollection \<or> is_creation c \<or> (\<exists>ts. c = PostEmbed ts)
               \<or> (\<exists>v k. c = PostSearch v k (search_filter ?cat))" by blast
  have s1: "f = search_filter ?cat" if "PostSearch v k f \<in> set (map fst n1)"
    using n1(2) that by fastforce
  show ?thesis
  proof (cases "\<exists>hits. rh = Inr hits \<and> length hits \<noteq> 0")
    case False
    with True h have "snd (chat_query cfg w t (Some req)) = t1"
      by (cases rh) (auto simp: chat_query_def chat_query_try_def)
    with assms n1(1) s1 show ?thesis by (simp add: sent_since_append)
  next
    case True
    then obtain hits where hits: "rh = Inr hits" "length hits \<noteq> 0" by blast
    obtain ra t2 where a: "chat_query_answer cfg w t1 ?q hits = (ra, t2)"
      by (cases "chat_query_answer cfg w t1 ?q hits")
    from chat_query_answer_sent [OF a] obtain n2 where
      n2: "t2 = t1 @ n2" "\<forall>c\<in>set (map fst n2). is_rerank c \<or> is_generation c" by blast
    from \<open>truthy (req_query req)\<close> h hits a have "snd (chat_query cfg w t (Some req)) = t2"
      by (cases ra) (auto simp: chat_query_def chat_query_try_def)
    with assms n1(1) n2(1) have "PostSearch v k f \<in> set (map fst n1) \<or> PostSearch v k f \<in> set (map fst n2)"
      by (auto simp: sent_since_def)
    moreover have "PostSearch v k f \<notin> set (map fst n2)"
      using n2(2) by fastforce
    ultimately show ?thesis using s1 by blast
  qed
qed

lemma slice0_take: "0 \<le> e \<Longrightarrow> slice0 xs e = take (nat e) xs"
  by (simp add: slice0_def)

lemma set_slice0: "set (slice0 xs e) \<subseteq> set xs"
  by (auto simp: slice0_def dest: in_set_takeD)

section \<open>Facts about the chunker\<close>

text \<open>
  What \<^verbatim>\<open>chunkText\<close> does with the pieces that \<^verbatim>\<open>split\<close> returns: the chunks are the joined
  groups of \<open>chunk_groups\<close>, the groups in order hold exactly the pieces, and under a
  limit of at least 1 there are \<open>ceil (N / limit)\<close> chunks for \<open>N\<close> pieces.  A text that
  is not empty and neither starts nor ends with white space has no empty piece.
\<close>

lemma group_loop_concat:
  "group_loop m groups current cnt ws = (gs, cur) \<Longrightarrow>
   concat gs @ cur = concat groups @ current @ ws"
  by (induction ws arbitrary: groups current cnt) (auto simp: Let_def split: if_splits)

lemma chunk_groups_concat: "concat (chunk_groups ws m) = ws"
proof -
  obtain gs cur where g: "group_loop m [] [] 0 ws = (gs, cur)"
    by (cases "group_loop m [] [] 0 ws")
  from group_loop_concat [OF g] g show ?thesis
    by (auto simp: chunk_groups_def)
qed

lemma chunk_loop_groups:
  "chunk_loop m (map (join '' '') groups) current cnt ws
     = (case group_loop m groups current cnt ws of (gs, cur) \<Rightarrow> (map (join '' '') gs, cur))"
proof (induction ws arbitrary: groups current cnt)
  case Nil
  show ?case by simp
next
  case (Cons w ws)
  show ?case
    using Cons.IH [of "groups @ [current @ [w]]" "[]" 0] Cons.IH [of groups "current @ [w]" "cnt + 1"]
    by (simp add: Let_def)
qed

lemma chunkText_groups: "chunkText txt m = map (join '' '') (chunk_groups (split_ws txt) m)"
  using chunk_loop_groups [of m "[]" "[]" 0 "split_ws txt"]
  by (simp add: chunkText_def chunk_groups_def split: prod.splits)

lemma group_loop_count:
  assumes "1 \<le> m" and "cnt = int (length current)" and "cnt < m"
    and "group_loop m groups current cnt ws = (gs, cur)"
  shows "length gs = length groups + (length current + length ws) div nat m \<and>
         length cur = (length current + length ws) mod nat m"
  using assms
proof (induction ws arbitrary: groups current cnt)
  case Nil
  then show ?case by simp
next
  case (Cons w ws)
  show ?case
  proof (cases "cnt + 1 \<ge> m")
    case True
    with Cons.prems have full: "Suc (length current) = nat m" by simp
    from True Cons.prems(4) have "group_loop m (groups @ [current @ [w]]) [] 0 ws = (gs, cur)"
      by (simp add: Let_def)
    from Cons.IH [OF Cons.prems(1) _ _ this] Cons.prems(1)
    have "length gs = Suc (length groups) + length ws div nat m \<and> length cur = length ws mod nat m"
      by simp
    moreover have "length current + length (w # ws) = nat m + length ws" using full by simp
    moreover have "(nat m + length ws) div nat m = Suc (length ws div nat m)"
      and "(nat m + length ws) mod nat m = length ws mod nat m"
      using Cons.prems(1) by simp_all
    ultimately show ?thesis by (simp only: add_Suc_right add_Suc)
  next
    case False
    with Cons.prems(4) have "group_loop m groups (current @ [w]) (cnt + 1) ws = (gs, cur)"
      by (simp add: Let_def)
    from Cons.IH [OF Cons.prems(1) _ _ this] Cons.prems(2) False show ?thesis by simp
  qed
qed

lemma ceil_div:
  assumes "0 < (k::nat)"
  shows "(n + k - 1) div k = n div k + (if n mod k = 0 then 0 else 1)"
proof -
  have "n = n mod k + n div k * k" by simp
  with assms have e: "n + k - 1 = (n mod k + k - 1) + n div k * k" by linarith
  have "((n mod k + k - 1) + n div k * k) div k = n div k + (n mod k + k - 1) div k"
    using assms by (intro div_mult_self1) simp
  with e have "(n + k - 1) div k = (n mod k + k - 1) div k + n div k"
    by (simp only: add.commute)
  moreover have "(n mod k + k - 1) div k = (if n mod k = 0 then 0 else 1)"
  proof (cases "n mod k = 0")
    case True
    with assms show ?thesis by simp
  next
    case False
    have "n mod k < k" using assms by simp
    with False have "k * 1 \<le> n mod k + k - 1" and "n mod k + k - 1 < k * Suc 1" by simp_all
    then have "(n mod k + k - 1) div k = 1" by (rule div_nat_eqI)
    with False show ?thesis by simp
  qed
  ultimately show ?thesis by simp
qed

lemma chunk_groups_count:
  assumes "1 \<le> m"
  shows "length (chunk_groups ws m) = (length ws + nat m - 1) div nat m"
proof -
  obtain gs cur where g: "group_loop m [] [] 0 ws = (gs, cur)"
    by (cases "group_loop m [] [] 0 ws")
  from group_loop_count [OF assms _ _ g] assms have
    "length gs = length ws div nat m" and "length cur = length ws mod nat m" by simp_all
  with g have "length (chunk_groups ws m)
                 = length ws div nat m + (if length ws mod nat m = 0 then 0 else 1)"
    by (cases cur) (auto simp: chunk_groups_def)
  also have "\<dots> = (length ws + nat m - 1) div nat m"
  proof -
    from assms have "0 < nat m" by simp
    from ceil_div [OF this, of "length ws"] show ?thesis by (rule sym)
  qed
  finally show ?thesis .
qed

lemma chunkText_count:
  "1 \<le> m \<Longrightarrow> length (chunkText txt m) = (length (split_ws txt) + nat m - 1) div nat m"
  by (simp add: chunkText_groups chunk_groups_count)

lemma chunk_groups_small_limit:
  "m \<le> 1 \<Longrightarrow> group_loop m groups [] 0 ws = (groups @ map (\<lambda>w. [w]) ws, [])"
  by (induction ws arbitrary: groups) (simp_all add: Let_def)

lemma split_from_no_empty:
  "cur \<noteq> [] \<or> (s \<noteq> [] \<and> \<not> is_ws (hd s)) \<Longrightarrow> s = [] \<or> \<not> is_ws (last s) \<Longrightarrow>
   [] \<notin> set (split_from cur s)"
proof (induction cur s rule: split_from.induct)
  case (1 cur)
  then show ?case by simp
next
  case (2 cur c cs)
  show ?case
  proof (cases "is_ws c")
    case True
    with "2.prems" have cur: "cur \<noteq> []" by simp
    from True "2.prems"(2) have cs: "cs \<noteq> []" "\<not> is_ws (last cs)" by (auto split: if_splits)
    then have d: "dropWhile is_ws cs \<noteq> []"
      by (metis dropWhile_eq_Nil_conv last_in_set)
    then have h: "\<not> is_ws (hd (dropWhile is_ws cs))" by (rule hd_dropWhile)
    from cs d have l: "\<not> is_ws (last (dropWhile is_ws cs))"
      by (metis append_Nil2 last_appendR takeWhile_dropWhile_id)
    from "2.IH"(1) [OF True] d h l have "[] \<notin> set (split_from [] (dropWhile is_ws cs))" by simp
    with True cur show ?thesis by simp
  next
    case False
    from "2.prems"(2) have "cs = [] \<or> \<not> is_ws (last cs)" by (auto split: if_splits)
    with "2.IH"(2) [OF False] False show ?thesis by simp
  qed
qed

lemma split_ws_no_empty:
  "txt \<noteq> [] \<Longrightarrow> \<not> is_ws (hd txt) \<Longrightarrow> \<not> is_ws (last txt) \<Longrightarrow> [] \<notin> set (split_ws txt)"
  unfolding split_ws_def by (rule split_from_no_empty) simp_all

section \<open>Facts about the generator\<close>

lemma generateAnswer_rejected:
  "w t (generation_request cfg prompt) = Rejected \<Longrightarrow>
   generateAnswer cfg w t prompt = (Inl AxiosError, t @ [(generation_request cfg prompt, Rejected)])"
  by (auto simp: generateAnswer_def generation_request_def http_def Let_def split: if_splits)

lemma generateAnswer_chat_completions_no_choice:
  "LLM_PROVIDER cfg \<noteq> ''ollama'' \<Longrightarrow>
   w t (generation_request cfg prompt) = Resolved d \<Longrightarrow>
   d = Nullish \<or> d = FalsyData \<or> (\<exists>obj. d = Obj obj \<and> (choices obj = None \<or> choices obj = Some [])) \<Longrightarrow>
   fst (generateAnswer cfg w t prompt) = Inl (Error ''Invalid response from LLM provider'')"
  by (auto simp: generateAnswer_def generation_request_def http_def Let_def split: if_splits)

lemma generateAnswer_chat_completions_first_choice:
  "LLM_PROVIDER cfg \<noteq> ''ollama'' \<Longrightarrow>
   w t (generation_request cfg prompt) = Resolved (Obj obj) \<Longrightarrow>
   choices obj = Some (Message content # cs) \<Longrightarrow>
   fst (generateAnswer cfg w t prompt) = Inr content"
  by (auto simp: generateAnswer_def generation_request_def http_def Let_def split: if_splits)

lemma generateAnswer_ollama_unchecked:
  "LLM_PROVIDER cfg = ''ollama'' \<Longrightarrow>
   w t (generation_request cfg prompt) = Resolved (Obj obj) \<Longrightarrow>
   fst (generateAnswer cfg w t prompt) = Inr (response obj)"
  by (auto simp: generateAnswer_def generation_request_def http_def Let_def split: if_splits)

section \<open>The citations of an answered query\<close>

lemma join_contains: "k < length xs \<Longrightarrow> \<exists>pre post. join sep xs = pre @ xs ! k @ post"
proof (induction sep xs arbitrary: k rule: join.induct)
  case (1 sep)
  then show ?case by simp
next
  case (2 sep x)
  then have "join sep [x] = [] @ [x] ! k @ []" by simp
  then show ?case by blast
next
  case (3 sep x y ys)
  show ?case
  proof (cases k)
    case 0
    then have "join sep (x # y # ys) = [] @ (x # y # ys) ! k @ (sep @ join sep (y # ys))" by simp
    then show ?thesis by blast
  next
    case (Suc j)
    with "3.prems" have "j < length (y # ys)" by simp
    from "3.IH" [OF this] obtain pre post where "join sep (y # ys) = pre @ (y # ys) ! j @ post"
      by blast
    with Suc have "join sep (x # y # ys) = (x @ sep @ pre) @ (x # y # ys) ! k @ post" by simp
    then show ?thesis by blast
  qed
qed


lemma chat_query_answer_citations:
  assumes run: "chat_query_answer cfg w t query hits
                  = (Inr (Reply st (ChatResponse answer citations)), t2)"
    and order: "order = fst (rerankContexts cfg w t query (map (\<lambda>h. payload_text (hit_payload h)) hits))"
    and sel: "selected = slice0 order (MAX_CONTEXT cfg)"
  shows "(0 \<le> MAX_CONTEXT cfg \<longrightarrow> selected = take (nat (MAX_CONTEXT cfg)) order) \<and>
         length citations = length selected \<and>
         (\<exists>entries outcome.
            length entries = length selected \<and>
            last t2 = (generation_request cfg
                         (make_prompt (join [CHR 0x0A, CHR 0x0A] entries) query), outcome) \<and>
            (\<forall>k<length selected.
               selected ! k < length hits \<and>
               citations ! k =
                 \<lparr>documentId = payload_documentId (hit_payload (hits ! (selected ! k))),
                  chunkId = id_toString (hit_id (hits ! (selected ! k)))\<rparr> \<and>
               entries ! k =
                 ''['' @ show_nat (k + 1) @ ''] ''
                 @ payload_text (hit_payload (hits ! (selected ! k)))))"
proof -
  let ?contexts = "map (\<lambda>h. payload_text (hit_payload h)) hits"
  let ?entries = "context_entries (map (index ?contexts) selected)"
  let ?prompt = "make_prompt (context_string (map (index ?contexts) selected)) query"
  from chat_query_answer_success [OF run] order sel obtain a t1 where
    cs: "map_throwing (cite hits) selected = Inr citations"
    and g: "generateAnswer cfg w t1 ?prompt = (Inr (Some a), t2)"
    by auto
  from map_throwing_cite [OF cs] have
    range: "\<forall>i\<in>set selected. i < length hits"
    and cit: "citations = map (\<lambda>i. \<lparr>documentId = payload_documentId (hit_payload (hits ! i)),
                    chunkId = id_toString (hit_id (hits ! i))\<rparr>) selected"
    by simp_all
  have 1: "0 \<le> MAX_CONTEXT cfg \<longrightarrow> selected = take (nat (MAX_CONTEXT cfg)) order"
    using sel by (simp add: slice0_take)
  have 2: "length citations = length selected" using cit by simp
  have 3: "length ?entries = length selected" by (simp add: length_context_entries)
  from generateAnswer_sent [OF g] have
    4: "last t2 = (generation_request cfg (make_prompt (join [CHR 0x0A, CHR 0x0A] ?entries) query),
                   w t1 (generation_request cfg ?prompt))"
    by (simp add: context_string_def)
  have 5: "selected ! k < length hits \<and>
           citations ! k =
                 \<lparr>documentId = payload_documentId (hit_payload (hits ! (selected ! k))),
                  chunkId = id_toString (hit_id (hits ! (selected ! k)))\<rparr> \<and>
           ?entries ! k = ''['' @ show_nat (k + 1) @ ''] ''
                 @ payload_text (hit_payload (hits ! (selected ! k)))"
    if k: "k < length selected" for k
  proof -
    from k range have r: "selected ! k < length hits" by simp
    from k cit have "citations ! k =
                 \<lparr>documentId = payload_documentId (hit_payload (hits ! (selected ! k))),
                  chunkId = id_toString (hit_id (hits ! (selected ! k)))\<rparr>" by simp
    moreover from context_entries_nth [OF k r] have
      "?entries ! k = ''['' @ show_nat (k + 1) @ ''] ''
                 @ payload_text (hit_payload (hits ! (selected ! k)))" .
    ultimately show ?thesis using r by simp
  qed
  from 1 2 3 4 5 show ?thesis by blast
qed

lemmas eval_defs = chat_query_answer_def rerankContexts_def http_def service_world_def
  scores_outcome_def text_outcome_def no_members_def rerank_config_def default_config_def
  five_hits_def example_hit_def order_by_scores_def js_sort_def slice0_def index_def cite_def
  context_string_def context_entries_def context_entry_def generateAnswer_def trim_def is_ws_def
  Let_def identity_order_def generation_request_def

lemmas run_defs = chat_query_def chat_query_try_def chat_query_hits_def ensureCollection_def
  embedTexts_def search_filter_def truthy_def no_information_answer_def sent_since_def

section \<open>The claims\<close>

text \<open>
  Claim C1.  Whenever the query handler answers a query with a non-empty list of hits,
  the indices it selects are \<^verbatim>\<open>order.slice(0, MAX_CONTEXT)\<close> of the rerank order (the
  first \<^verbatim>\<open>MAX_CONTEXT\<close> indices when that constant is not negative).  The reply has one
  citation per selected index, in the order of the selection: citation \<open>k\<close> holds the
  document id of the hit selected at \<open>k\<close> and, as chunk id, the hit's id (a string id as
  it is, a numeric id in decimal).  The prompt sent to the generator is the fixed
  instruction, the line \<open>Context:\<close>, the entries joined by an empty line, and the
  question; entry \<open>k\<close> is the marker \<open>[k + 1]\<close>, a space and the text of the hit selected
  at \<open>k\<close>, so that citation \<open>N\<close> is the context marked \<open>[N]\<close> in the prompt.
\<close>

theorem citations_follow_selection:
  assumes q: "truthy (req_query req)"
    and hits: "chat_query_hits cfg w t (the (req_query req)) (req_filter_category req)
                 = (Inr hits, t1)"
    and ne: "hits \<noteq> []"
    and run: "chat_query cfg w t (Some req) = (Reply st (ChatResponse answer citations), t2)"
    and order: "order = fst (rerankContexts cfg w t1 (the (req_query req))
                               (map (\<lambda>h. payload_text (hit_payload h)) hits))"
    and sel: "selected = slice0 order (MAX_CONTEXT cfg)"
  shows "(0 \<le> MAX_CONTEXT cfg \<longrightarrow> selected = take (nat (MAX_CONTEXT cfg)) order) \<and>
         length citations = length selected \<and>
         (\<exists>entries prompt outcome.
            length entries = length selected \<and>
            prompt =
              (''You are an institutional knowledge assistant. Use the context provided to answer the question. ''
              @ ''Respond in a concise and clear manner. Cite the source of your information using the bracketed ''
              @ ''numbers corresponding to the context. If you do not know the answer based on the context, ''
              @ ''say you don't know.'')
              @ [CHR 0x0A, CHR 0x0A] @ ''Context:'' @ [CHR 0x0A]
              @ join [CHR 0x0A, CHR 0x0A] entries
              @ [CHR 0x0A, CHR 0x0A] @ ''Question: '' @ the (req_query req)
              @ [CHR 0x0A] @ ''Answer:'' \<and>
            last t2 =
              (if LLM_PROVIDER cfg = ''ollama'' then PostGenerate (LLM_MODEL cfg) prompt
               else PostChatCompletions (LLM_MODEL cfg) prompt, outcome) \<and>
            (\<forall>k<length selected.
               selected ! k < length hits \<and>
               documentId (citations ! k)
                 = payload_documentId (hit_payload (hits ! (selected ! k))) \<and>
               chunkId (citations ! k)
                 = (case hit_id (hits ! (selected ! k)) of
                      IdNum n \<Rightarrow> show_nat (unat n)
                    | IdStr s \<Rightarrow> s) \<and>
               entries ! k =
                 ''['' @ show_nat (k + 1) @ ''] ''
                 @ payload_text (hit_payload (hits ! (selected ! k))) \<and>
               (\<exists>pre post. prompt = pre @ entries ! k @ post)))"
proof -
  obtain r t3 where a: "chat_query_answer cfg w t1 (the (req_query req)) hits = (r, t3)"
    by (cases "chat_query_answer cfg w t1 (the (req_query req)) hits")
  from q hits ne a run have "r = Inr (Reply st (ChatResponse answer citations)) \<and> t3 = t2"
    by (cases r) (auto simp: chat_query_def chat_query_try_def)
  with a have "chat_query_answer cfg w t1 (the (req_query req)) hits
                 = (Inr (Reply st (ChatResponse answer citations)), t2)"
    by simp
  note c = chat_query_answer_citations [OF this order sel]
  from c have 1: "0 \<le> MAX_CONTEXT cfg \<longrightarrow> selected = take (nat (MAX_CONTEXT cfg)) order"
    and 2: "length citations = length selected"
    by blast+
  from c obtain entries outcome where
    l: "length entries = length selected"
    and p: "last t2 = (generation_request cfg
                         (make_prompt (join [CHR 0x0A, CHR 0x0A] entries) (the (req_query req))),
                       outcome)"
    and e: "\<forall>k<length selected.
               selected ! k < length hits \<and>
               citations ! k =
                 \<lparr>documentId = payload_documentId (hit_payload (hits ! (selected ! k))),
                  chunkId = id_toString (hit_id (hits ! (selected ! k)))\<rparr> \<and>
               entries ! k =
                 ''['' @ show_nat (k + 1) @ ''] ''
                 @ payload_text (hit_payload (hits ! (selected ! k)))"
    by blast
  let ?prompt = "make_prompt (join [CHR 0x0A, CHR 0x0A] entries) (the (req_query req))"
  have 3: "?prompt =
              (''You are an institutional knowledge assistant. Use the context provided to answer the question. ''
              @ ''Respond in a concise and clear manner. Cite the source of your information using the bracketed ''
              @ ''numbers corresponding to the context. If you do not know the answer based on the context, ''
              @ ''say you don't know.'')
              @ [CHR 0x0A, CHR 0x0A] @ ''Context:'' @ [CHR 0x0A]
              @ join [CHR 0x0A, CHR 0x0A] entries
              @ [CHR 0x0A, CHR 0x0A] @ ''Question: '' @ the (req_query req)
              @ [CHR 0x0A] @ ''Answer:''"
    by (simp add: make_prompt_def prompt_head_def)
  from p have 4: "last t2 =
              (if LLM_PROVIDER cfg = ''ollama'' then PostGenerate (LLM_MODEL cfg) ?prompt
               else PostChatCompletions (LLM_MODEL cfg) ?prompt, outcome)"
    by (simp add: generation_request_def)
  have i: "id_toString x = (case x of IdNum n \<Rightarrow> show_nat (unat n) | IdStr s \<Rightarrow> s)" for x
    by (cases x) simp_all
  have 5: "selected ! k < length hits \<and>
           documentId (citations ! k)
             = payload_documentId (hit_payload (hits ! (selected ! k))) \<and>
           chunkId (citations ! k)
             = (case hit_id (hits ! (selected ! k)) of
                  IdNum n \<Rightarrow> show_nat (unat n)
                | IdStr s \<Rightarrow> s) \<and>
           entries ! k =
             ''['' @ show_nat (k + 1) @ ''] ''
             @ payload_text (hit_payload (hits ! (selected ! k))) \<and>
           (\<exists>pre post. ?prompt = pre @ entries ! k @ post)"
    if k: "k < length selected" for k
  proof -
    from k l have "k < length entries" by simp
    from join_contains [OF this, of "[CHR 0x0A, CHR 0x0A]"] obtain pre post where
      "join [CHR 0x0A, CHR 0x0A] entries = pre @ entries ! k @ post" by blast
    then have "?prompt = (prompt_head @ [CHR 0x0A, CHR 0x0A] @ ''Context:'' @ [CHR 0x0A] @ pre)
                 @ entries ! k
                 @ (post @ [CHR 0x0A, CHR 0x0A] @ ''Question: '' @ the (req_query req)
                    @ [CHR 0x0A] @ ''Answer:'')"
      by (simp add: make_prompt_def)
    then have "\<exists>pre post. ?prompt = pre @ entries ! k @ post" by blast
    moreover from e k have "selected ! k < length hits"
      and "citations ! k =
                 \<lparr>documentId = payload_documentId (hit_payload (hits ! (selected ! k))),
                  chunkId = id_toString (hit_id (hits ! (selected ! k)))\<rparr>"
      and "entries ! k =
                 ''['' @ show_nat (k + 1) @ ''] ''
                 @ payload_text (hit_payload (hits ! (selected ! k)))"
      by blast+
    ultimately show ?thesis by (simp add: i)
  qed
  from l 3 4 5 have "\<exists>entries prompt outcome.
            length entries = length selected \<and>
            prompt =
              (''You are an institutional knowledge assistant. Use the context provided to answer the question. ''
              @ ''Respond in a concise and clear manner. Cite the source of your information using the bracketed ''
              @ ''numbers corresponding to the context. If you do not know the answer based on the context, ''
              @ ''say you don't know.'')
              @ [CHR 0x0A, CHR 0x0A] @ ''Context:'' @ [CHR 0x0A]
              @ join [CHR 0x0A, CHR 0x0A] entries
              @ [CHR 0x0A, CHR 0x0A] @ ''Question: '' @ the (req_query req)
              @ [CHR 0x0A] @ ''Answer:'' \<and>
            last t2 =
              (if LLM_PROVIDER cfg = ''ollama'' then PostGenerate (LLM_MODEL cfg) prompt
               else PostChatCompletions (LLM_MODEL cfg) prompt, outcome) \<and>
            (\<forall>k<length selected.
               selected ! k < length hits \<and>
               documentId (citations ! k)
                 = payload_documentId (hit_payload (hits ! (selected ! k))) \<and>
               chunkId (citations ! k)
                 = (case hit_id (hits ! (selected ! k)) of
                      IdNum n \<Rightarrow> show_nat (unat n)
                    | IdStr s \<Rightarrow> s) \<and>
               entries ! k =
                 ''['' @ show_nat (k + 1) @ ''] ''
                 @ payload_text (hit_payload (hits ! (selected ! k))) \<and>
               (\<exists>pre post. prompt = pre @ entries ! k @ post))"
    by blast
  with 1 2 show ?thesis by blast
qed

theorem citations_follow_selection_witness:
  "truthy (Some ''q'') \<and>
   fst (chat_query_hits rerank_config
          (service_world (scores_outcome [0.8, 0.2, 0.1, 0.9, 0.5]) (text_outcome '' See [2]. '')
             five_hits) [] ''q'' None) = Inr five_hits \<and>
   five_hits \<noteq> [] \<and>
   fst (chat_query rerank_config
          (service_world (scores_outcome [0.8, 0.2, 0.1, 0.9, 0.5]) (text_outcome '' See [2]. '')
             five_hits) [] (Some \<lparr>req_query = Some ''q'', req_filter_category = None\<rparr>))
     = Reply 200 (ChatResponse ''See [2].''
          [\<lparr>documentId = ''d3'', chunkId = ''13''\<rparr>, \<lparr>documentId = ''d0'', chunkId = ''9f1c''\<rparr>,
           \<lparr>documentId = ''d4'', chunkId = ''14''\<rparr>]) \<and>
   fst (rerankContexts rerank_config
          (service_world (scores_outcome [0.8, 0.2, 0.1, 0.9, 0.5]) (text_outcome '' See [2]. '')
             five_hits)
          (snd (chat_query_hits rerank_config
                  (service_world (scores_outcome [0.8, 0.2, 0.1, 0.9, 0.5])
                     (text_outcome '' See [2]. '') five_hits) [] ''q'' None))
          ''q'' (map (\<lambda>h. payload_text (hit_payload h)) five_hits)) = [3, 0, 4, 1, 2] \<and>
   slice0 [3, 0, 4, 1, 2 :: nat] (MAX_CONTEXT rerank_config) = [3, 0, 4] \<and>
   last (snd (chat_query rerank_config
          (service_world (scores_outcome [0.8, 0.2, 0.1, 0.9, 0.5]) (text_outcome '' See [2]. '')
             five_hits) [] (Some \<lparr>req_query = Some ''q'', req_filter_category = None\<rparr>)))
     = (PostGenerate ''llama3.1:8b-instruct''
          ((''You are an institutional knowledge assistant. Use the context provided to answer the question. ''
              @ ''Respond in a concise and clear manner. Cite the source of your information using the bracketed ''
              @ ''numbers corresponding to the context. If you do not know the answer based on the context, ''
              @ ''say you don't know.'')
           @ [CHR 0x0A, CHR 0x0A] @ ''Context:'' @ [CHR 0x0A]
           @ ''[1] delta'' @ [CHR 0x0A, CHR 0x0A] @ ''[2] alpha'' @ [CHR 0x0A, CHR 0x0A]
           @ ''[3] epsilon''
           @ [CHR 0x0A, CHR 0x0A] @ ''Question: q'' @ [CHR 0x0A] @ ''Answer:''),
        text_outcome '' See [2]. '') \<and>
   (\<exists>entries.
      length entries = 3 \<and>
      entries ! 0 = ''[1] delta'' \<and> entries ! 1 = ''[2] alpha'' \<and> entries ! 2 = ''[3] epsilon'')"
proof -
  let ?w = "service_world (scores_outcome [0.8, 0.2, 0.1, 0.9, 0.5]) (text_outcome '' See [2]. '')
              five_hits"
  let ?req = "\<lparr>req_query = Some ''q'', req_filter_category = None\<rparr>"
  let ?hits = "chat_query_hits rerank_config ?w [] ''q'' None"
  let ?run = "chat_query rerank_config ?w [] (Some ?req)"
  let ?cs = "[\<lparr>documentId = ''d3'', chunkId = ''13''\<rparr>, \<lparr>documentId = ''d0'', chunkId = ''9f1c''\<rparr>,
           \<lparr>documentId = ''d4'', chunkId = ''14''\<rparr>]"
  have q: "truthy (req_query ?req)" by (simp add: truthy_def)
  have fh: "fst ?hits = Inr five_hits" by (simp add: run_defs eval_defs)
  then have h: "chat_query_hits rerank_config ?w [] (the (req_query ?req)) (req_filter_category ?req)
                  = (Inr five_hits, snd ?hits)"
    by (simp add: prod_eq_iff)
  have ne: "five_hits \<noteq> []" by (simp add: five_hits_def)
  have f: "fst ?run = Reply 200 (ChatResponse ''See [2].'' ?cs)"
    by (simp add: run_defs eval_defs)
  then have r: "?run = (Reply 200 (ChatResponse ''See [2].'' ?cs), snd ?run)"
    by (simp add: prod_eq_iff)
  have o: "fst (rerankContexts rerank_config ?w (snd ?hits) (the (req_query ?req))
                  (map (\<lambda>h. payload_text (hit_payload h)) five_hits))
             = [3, 0, 4, 1, 2]"
    by (simp add: eval_defs)
  have s: "slice0 [3, 0, 4, 1, 2 :: nat] (MAX_CONTEXT rerank_config) = [3, 0, 4]"
    by (simp add: eval_defs)
  have p: "last (snd ?run)
     = (PostGenerate ''llama3.1:8b-instruct''
          ((''You are an institutional knowledge assistant. Use the context provided to answer the question. ''
              @ ''Respond in a concise and clear manner. Cite the source of your information using the bracketed ''
              @ ''numbers corresponding to the context. If you do not know the answer based on the context, ''
              @ ''say you don't know.'')
           @ [CHR 0x0A, CHR 0x0A] @ ''Context:'' @ [CHR 0x0A]
           @ ''[1] delta'' @ [CHR 0x0A, CHR 0x0A] @ ''[2] alpha'' @ [CHR 0x0A, CHR 0x0A]
           @ ''[3] epsilon''
           @ [CHR 0x0A, CHR 0x0A] @ ''Question: q'' @ [CHR 0x0A] @ ''Answer:''),
        text_outcome '' See [2]. '')"
    by (simp add: run_defs eval_defs make_prompt_def prompt_head_def)
  from citations_follow_selection
         [OF q h ne r o [symmetric] s [symmetric], THEN conjunct2, THEN conjunct2]
  obtain entries where
    l: "length entries = length [3, 0, 4 :: nat]"
    and e: "\<forall>k<length [3, 0, 4 :: nat].
               entries ! k =
                 ''['' @ show_nat (k + 1) @ ''] ''
                 @ payload_text (hit_payload (five_hits ! ([3, 0, 4] ! k)))"
    by blast
  from e [rule_format, of 0] have e0: "entries ! 0 = ''[1] delta''"
    by (simp add: five_hits_def example_hit_def)
  from e [rule_format, of 1] have e1: "entries ! 1 = ''[2] alpha''"
    by (simp add: five_hits_def example_hit_def)
  from e [rule_format, of 2] have e2: "entries ! 2 = ''[3] epsilon''"
    by (simp add: five_hits_def example_hit_def)
  from l have l3: "length entries = 3" by simp
  from l3 e0 e1 e2 have x: "\<exists>entries. length entries = 3 \<and>
      entries ! 0 = ''[1] delta'' \<and> entries ! 1 = ''[2] alpha'' \<and> entries ! 2 = ''[3] epsilon''"
    by blast
  have q': "truthy (Some ''q'')" by (simp add: truthy_def)
  from o have o': "fst (rerankContexts rerank_config ?w (snd ?hits) ''q''
                  (map (\<lambda>h. payload_text (hit_payload h)) five_hits)) = [3, 0, 4, 1, 2]"
    by simp
  from q' fh ne f o' s p x show ?thesis by blast
qed

text \<open>
  Claim C2.  The claim says that a text of \<open>W\<close> words gives \<open>ceil (W / L)\<close> chunks, none
  for the empty text.  \<^verbatim>\<open>split(/\s+/)\<close> gives the empty string as a piece for the empty
  text, and before a leading and after a trailing run of white space, and
  \<^verbatim>\<open>chunkText\<close> counts each as a word: the empty text gives one chunk (the empty string),
  a text of one space gives one chunk (a space), a space followed by one word gives
  two chunks under the limit 1, and two words followed by a line feed give a second,
  empty chunk under the limit 2.
\<close>

theorem chunkText_empty_text_one_chunk:
  "chunkText [] 500 = [[]] \<and> chunkText '' '' 500 = ['' ''] \<and>
   chunkText '' a'' 1 = [[], ''a''] \<and>
   chunkText (''a b'' @ [CHR 0x0A]) 2 = [''a b'', []]"
  by (simp add: chunkText_def split_ws_def is_ws_def)

text \<open>
  Claim C3.  When the query text is not empty and the retrieval part of the handler
  comes back with an empty list of hits, the handler replies with status 200, the
  fixed answer that it could not find any information relevant to the question, and
  no citation; what it has sent holds no rerank request and no generation request.
\<close>

theorem zero_hits_fixed_answer:
  assumes "truthy (req_query req)"
    and "chat_query_hits cfg w t (the (req_query req)) (req_filter_category req) = (Inr [], t1)"
  shows "chat_query cfg w t (Some req)
           = (Reply 200
                (ChatResponse
                   (''I'm so'' @ ''rry, I couldn't find any information relevant to your question.'')
                   []), t1) \<and>
         (\<forall>c\<in>set (sent_since t t1). \<not> is_rerank c \<and> \<not> is_generation c)"
proof -
  from assms have "chat_query cfg w t (Some req)
           = (Reply 200
                (ChatResponse
                   (''I'm so'' @ ''rry, I couldn't find any information relevant to your question.'')
                   []), t1)"
    by (simp add: chat_query_def chat_query_try_def no_information_answer_def)
  moreover from chat_query_hits_sent [OF assms(2)] obtain n1 where
    n1: "t1 = t @ n1"
        "\<forall>c\<in>set (map fst n1). c = GetCollection \<or> is_creation c \<or> (\<exists>ts. c = PostEmbed ts)
               \<or> (\<exists>v k. c = PostSearch v k (search_filter (req_filter_category req)))" by blast
  have "\<not> is_rerank c \<and> \<not> is_generation c" if "c \<in> set (map fst n1)" for c
  proof -
    from n1(2) that have "c = GetCollection \<or> is_creation c \<or> (\<exists>ts. c = PostEmbed ts)
               \<or> (\<exists>v k. c = PostSearch v k (search_filter (req_filter_category req)))"
      by blast
    then show ?thesis by (cases c) auto
  qed
  ultimately show ?thesis using n1(1) by (simp add: sent_since_append)
qed

theorem zero_hits_fixed_answer_witness:
  "truthy (Some ''xyzzy-unrelated-term'') \<and>
   fst (chat_query_hits default_config (service_world Rejected Rejected []) []
          ''xyzzy-unrelated-term'' None) = Inr [] \<and>
   fst (chat_query default_config (service_world Rejected Rejected []) []
          (Some \<lparr>req_query = Some ''xyzzy-unrelated-term'', req_filter_category = None\<rparr>))
     = Reply 200
         (ChatResponse
            (''I'm so'' @ ''rry, I couldn't find any information relevant to your question.'')
            []) \<and>
   sent_since [] (snd (chat_query default_config (service_world Rejected Rejected []) []
          (Some \<lparr>req_query = Some ''xyzzy-unrelated-term'', req_filter_category = None\<rparr>)))
     = [GetCollection, PostEmbed [''xyzzy-unrelated-term''], PostSearch (Some [0.5, 0.25]) 20 None]"
proof -
  let ?w = "service_world Rejected Rejected []"
  let ?req = "\<lparr>req_query = Some ''xyzzy-unrelated-term'', req_filter_category = None\<rparr>"
  let ?hits = "chat_query_hits default_config ?w [] ''xyzzy-unrelated-term'' None"
  have q: "truthy (req_query ?req)" by (simp add: truthy_def)
  have f: "fst ?hits = Inr []" by (simp add: run_defs eval_defs)
  then have h: "chat_query_hits default_config ?w [] (the (req_query ?req)) (req_filter_category ?req)
                  = (Inr [], snd ?hits)"
    by (simp add: prod_eq_iff)
  have s: "sent_since [] (snd ?hits)
             = [GetCollection, PostEmbed [''xyzzy-unrelated-term''], PostSearch (Some [0.5, 0.25]) 20 None]"
    by (simp add: run_defs eval_defs)
  from zero_hits_fixed_answer [OF q h] q f s show ?thesis by simp
qed

text \<open>
  Claim C4.  With a rerank service configured, when the rerank request is rejected
  or its response has no \<^verbatim>\<open>scores\<close> array (no data, or an object without the member),
  \<^verbatim>\<open>rerankContexts\<close> returns the indices \<open>0, ..., n - 1\<close> of the candidates in order.
  It has no error result at all, and the query goes on: the handler still sends the
  generation request.
\<close>

theorem rerank_failure_identity:
  assumes "RERANK_BASE_URL cfg \<noteq> []"
    and "w t (PostRerank query contexts) = Rejected \<or>
         (\<exists>d. w t (PostRerank query contexts) = Resolved d \<and>
              (\<forall>obj. d = Obj obj \<longrightarrow> scores obj = None))"
  shows "fst (rerankContexts cfg w t query contexts) = [0..<length contexts] \<and>
         (contexts = map (\<lambda>h. payload_text (hit_payload h)) hits \<longrightarrow>
            (\<exists>c\<in>set (sent_since t (snd (chat_query_answer cfg w t query hits))).
               is_generation c))"
proof -
  have id: "fst (rerankContexts cfg w t query contexts) = [0..<length contexts]"
    using assms
    by (auto simp: rerankContexts_def http_def identity_order_def Let_def
             split: data.splits option.splits)
  have "\<exists>c\<in>set (sent_since t (snd (chat_query_answer cfg w t query hits))). is_generation c"
    if c: "contexts = map (\<lambda>h. payload_text (hit_payload h)) hits"
  proof -
    obtain order t1 where rr: "rerankContexts cfg w t query contexts = (order, t1)"
      by (cases "rerankContexts cfg w t query contexts")
    with id have order: "order = [0..<length hits]" by (simp add: c)
    from rerankContexts_sent [OF rr] assms(1) have
      t1: "t1 = t @ [(PostRerank query contexts, w t (PostRerank query contexts))]" by simp
    let ?sel = "slice0 order (MAX_CONTEXT cfg)"
    have "\<forall>i\<in>set ?sel. i < length hits"
      using set_slice0 [of order "MAX_CONTEXT cfg"] order by auto
    from map_throwing_cite_in_range [OF this] obtain cs where
      cs: "map_throwing (cite hits) ?sel = Inr cs" ..
    let ?prompt = "make_prompt (context_string (map (index contexts) ?sel)) query"
    obtain g t2 where g: "generateAnswer cfg w t1 ?prompt = (g, t2)"
      by (cases "generateAnswer cfg w t1 ?prompt")
    from rr cs g have "snd (chat_query_answer cfg w t query hits) = t2"
      unfolding chat_query_answer_def c [symmetric]
      by (auto simp: Let_def split: sum.splits option.splits)
    moreover from generateAnswer_sent [OF g] have
      "t2 = t1 @ [(generation_request cfg ?prompt, w t1 (generation_request cfg ?prompt))]" .
    moreover have "is_generation (generation_request cfg ?prompt)"
      by (simp add: generation_request_def)
    ultimately show ?thesis using t1 by (auto simp: sent_since_def)
  qed
  with id show ?thesis by blast
qed

theorem rerank_failure_identity_witness:
  "RERANK_BASE_URL rerank_config \<noteq> [] \<and>
   service_world Rejected (text_outcome ''ok'') five_hits []
     (PostRerank ''q'' (map (\<lambda>h. payload_text (hit_payload h)) five_hits)) = Rejected \<and>
   fst (rerankContexts rerank_config (service_world Rejected (text_outcome ''ok'') five_hits) []
          ''q'' (map (\<lambda>h. payload_text (hit_payload h)) five_hits)) = [0, 1, 2, 3, 4] \<and>
   (\<exists>c\<in>set (sent_since []
              (snd (chat_query_answer rerank_config
                      (service_world Rejected (text_outcome ''ok'') five_hits) [] ''q'' five_hits))).
      is_generation c) \<and>
   service_world (Resolved (Obj no_members)) (text_outcome ''ok'') five_hits []
     (PostRerank ''q'' [''A'', ''B'', ''C'']) = Resolved (Obj no_members) \<and>
   scores no_members = None \<and>
   fst (rerankContexts rerank_config
          (service_world (Resolved (Obj no_members)) (text_outcome ''ok'') five_hits) []
          ''q'' [''A'', ''B'', ''C'']) = [0, 1, 2]"
proof -
  let ?w = "service_world Rejected (text_outcome ''ok'') five_hits"
  let ?contexts = "map (\<lambda>h. payload_text (hit_payload h)) five_hits"
  have a: "RERANK_BASE_URL rerank_config \<noteq> []" by (simp add: rerank_config_def)
  have r: "?w [] (PostRerank ''q'' ?contexts) = Rejected" by (simp add: service_world_def)
  then have b: "?w [] (PostRerank ''q'' ?contexts) = Rejected \<or>
         (\<exists>d. ?w [] (PostRerank ''q'' ?contexts) = Resolved d \<and>
              (\<forall>obj. d = Obj obj \<longrightarrow> scores obj = None))" ..
  have l: "[0..<length ?contexts] = [0, 1, 2, 3, 4]" by (simp add: five_hits_def upt_rec)
  from rerank_failure_identity
         [where cfg = rerank_config and w = ?w and t = "[]" and query = "''q''"
            and contexts = ?contexts and hits = five_hits, OF a b]
       r l
  have first: "?w [] (PostRerank ''q'' ?contexts) = Rejected \<and>
     fst (rerankContexts rerank_config ?w [] ''q'' ?contexts) = [0, 1, 2, 3, 4] \<and>
     (\<exists>c\<in>set (sent_since [] (snd (chat_query_answer rerank_config ?w [] ''q'' five_hits))).
        is_generation c)"
    by simp
  let ?w' = "service_world (Resolved (Obj no_members)) (text_outcome ''ok'') five_hits"
  have r': "?w' [] (PostRerank ''q'' [''A'', ''B'', ''C'']) = Resolved (Obj no_members)"
    by (simp add: service_world_def)
  have n: "scores no_members = None" by (simp add: no_members_def)
  from r' n have b': "?w' [] (PostRerank ''q'' [''A'', ''B'', ''C'']) = Rejected \<or>
         (\<exists>d. ?w' [] (PostRerank ''q'' [''A'', ''B'', ''C'']) = Resolved d \<and>
              (\<forall>obj. d = Obj obj \<longrightarrow> scores obj = None))"
    by simp
  have l': "[0..<length [''A'', ''B'', ''C'']] = [0, 1, 2]" by (simp add: upt_rec)
  from rerank_failure_identity
         [where cfg = rerank_config and w = ?w' and t = "[]" and query = "''q''"
            and contexts = "[''A'', ''B'', ''C'']" and hits = five_hits, OF a b']
       l'
  have second: "fst (rerankContexts rerank_config ?w' [] ''q'' [''A'', ''B'', ''C'']) = [0, 1, 2]"
    by simp
  from a first r' n second show ?thesis by blast
qed

text \<open>
  Claim C5.  Without a rerank service configured, \<^verbatim>\<open>rerankContexts\<close> returns the indices
  \<open>0, ..., n - 1\<close> of the contexts and sends nothing.  With one configured that answers
  with a \<^verbatim>\<open>scores\<close> array, the result is a permutation of the indices of the scores in
  which a higher score comes first and, of two equal scores, the lower index comes
  first.
\<close>

theorem rerank_identity_or_stable_descending:
  "(RERANK_BASE_URL cfg = [] \<longrightarrow>
      rerankContexts cfg w t query contexts = ([0..<length contexts], t)) \<and>
   (RERANK_BASE_URL cfg \<noteq> [] \<and> w t (PostRerank query contexts) = Resolved (Obj obj) \<and>
    scores obj = Some scs \<longrightarrow>
      set (fst (rerankContexts cfg w t query contexts)) = {0..<length scs} \<and>
      distinct (fst (rerankContexts cfg w t query contexts)) \<and>
      sorted_wrt (\<lambda>i j. scs ! j < scs ! i \<or> (scs ! i = scs ! j \<and> i < j))
        (fst (rerankContexts cfg w t query contexts)))"
proof -
  have "fst (rerankContexts cfg w t query contexts) = order_by_scores scs"
    if "RERANK_BASE_URL cfg \<noteq> []" "w t (PostRerank query contexts) = Resolved (Obj obj)"
       "scores obj = Some scs"
    using that by (simp add: rerankContexts_def http_def Let_def)
  then show ?thesis
    using set_order_by_scores [of scs] distinct_order_by_scores [of scs]
          sorted_order_by_scores [of scs]
    by (simp add: rerankContexts_def identity_order_def)
qed

theorem rerank_identity_or_stable_descending_witness:
  "rerankContexts default_config (service_world (scores_outcome [0.2, 0.9, 0.5]) Rejected []) []
     ''q'' [''A'', ''B'', ''C''] = ([0, 1, 2], []) \<and>
   fst (rerankContexts rerank_config (service_world (scores_outcome [0.2, 0.9, 0.5]) Rejected []) []
          ''q'' [''A'', ''B'', ''C'']) = [1, 2, 0] \<and>
   fst (rerankContexts rerank_config (service_world (scores_outcome [0.5, 0.9, 0.5]) Rejected []) []
          ''q'' [''A'', ''B'', ''C'']) = [1, 0, 2] \<and>
   sorted_wrt (\<lambda>i j. [0.5, 0.9, 0.5 :: real] ! j < [0.5, 0.9, 0.5] ! i
                       \<or> ([0.5, 0.9, 0.5 :: real] ! i = [0.5, 0.9, 0.5] ! j \<and> i < j))
     (fst (rerankContexts rerank_config (service_world (scores_outcome [0.5, 0.9, 0.5]) Rejected [])
             [] ''q'' [''A'', ''B'', ''C'']))"
proof -
  let ?w = "service_world (scores_outcome [0.2, 0.9, 0.5]) Rejected []"
  let ?w' = "service_world (scores_outcome [0.5, 0.9, 0.5]) Rejected []"
  let ?obj = "no_members\<lparr>scores := Some [0.5, 0.9, 0.5]\<rparr>"
  have u: "RERANK_BASE_URL default_config = []" by (simp add: default_config_def)
  have c: "RERANK_BASE_URL rerank_config \<noteq> [] \<and>
           ?w' [] (PostRerank ''q'' [''A'', ''B'', ''C'']) = Resolved (Obj ?obj) \<and>
           scores ?obj = Some [0.5, 0.9, 0.5]"
    by (simp add: rerank_config_def service_world_def scores_outcome_def)
  have e1: "fst (rerankContexts rerank_config ?w [] ''q'' [''A'', ''B'', ''C'']) = [1, 2, 0]"
    by (simp add: eval_defs)
  have e2: "fst (rerankContexts rerank_config ?w' [] ''q'' [''A'', ''B'', ''C'']) = [1, 0, 2]"
    by (simp add: eval_defs)
  from rerank_identity_or_stable_descending
         [of default_config ?w "[]" "''q''" "[''A'', ''B'', ''C'']" ?obj "[0.5, 0.9, 0.5]"] u
  have i: "rerankContexts default_config ?w [] ''q'' [''A'', ''B'', ''C''] = ([0, 1, 2], [])"
    by (simp add: upt_rec)
  from rerank_identity_or_stable_descending
         [of rerank_config ?w' "[]" "''q''" "[''A'', ''B'', ''C'']" ?obj "[0.5, 0.9, 0.5]"] c
  have s: "sorted_wrt (\<lambda>i j. [0.5, 0.9, 0.5 :: real] ! j < [0.5, 0.9, 0.5] ! i
                       \<or> ([0.5, 0.9, 0.5 :: real] ! i = [0.5, 0.9, 0.5] ! j \<and> i < j))
     (fst (rerankContexts rerank_config ?w' [] ''q'' [''A'', ''B'', ''C'']))"
    by blast
  from i e1 e2 s show ?thesis by blast
qed

text \<open>
  Claim C6.  Against a vector store that keeps a collection once it has been seen or
  created, two calls of \<^verbatim>\<open>ensureCollection\<close> in sequence send at most one creation
  request, and a call that follows a successful one succeeds with the lookup alone.
  For any store, \<^verbatim>\<open>ensureCollection\<close> fails exactly when the lookup and the creation
  request both fail, and a failed lookup is followed by the creation request.
\<close>

theorem ensureCollection_idempotent:
  "(faithful_store w \<longrightarrow>
      creation_requests (sent_since t (snd (ensureCollection_twice w t))) \<le> 1 \<and>
      (\<forall>t1. ensureCollection w t = (Inr (), t1) \<longrightarrow>
         fst (ensureCollection w t1) = Inr () \<and>
         sent_since t1 (snd (ensureCollection w t1)) = [GetCollection])) \<and>
   ((\<exists>e. fst (ensureCollection w t) = Inl e) \<longleftrightarrow>
      w t GetCollection = Rejected \<and>
      w (t @ [(GetCollection, Rejected)]) (PutCollection 1024 ''Cosine'') = Rejected) \<and>
   (w t GetCollection = Rejected \<longrightarrow>
      sent_since t (snd (ensureCollection w t)) = [GetCollection, PutCollection 1024 ''Cosine''])"
proof -
  have exists: "\<exists>d. w t1 GetCollection = Resolved d"
    if f: "faithful_store w" and r: "ensureCollection w t = (Inr (), t1)" for t1
  proof -
    from r have "collection_seen t1"
      by (auto simp: ensureCollection_cases collection_seen_def split: outcome.splits)
    with f have "w t1 GetCollection \<noteq> Rejected" by (simp add: faithful_store_def)
    then show ?thesis by (cases "w t1 GetCollection") auto
  qed
  have second: "fst (ensureCollection w t1) = Inr () \<and>
         sent_since t1 (snd (ensureCollection w t1)) = [GetCollection]"
    if f: "faithful_store w" and r: "ensureCollection w t = (Inr (), t1)" for t1
  proof -
    from exists [OF f r] obtain d where "w t1 GetCollection = Resolved d" ..
    then show ?thesis by (simp add: ensureCollection_cases sent_since_append)
  qed
  have twice: "creation_requests (sent_since t (snd (ensureCollection_twice w t))) \<le> 1"
    if f: "faithful_store w"
  proof (cases "ensureCollection w t")
    case (Pair r t1)
    from ensureCollection_cases [of w t] Pair have
      first: "\<exists>new. t1 = t @ new \<and> creation_requests (map fst new) \<le> 1"
      by (auto simp: creation_requests_def split: outcome.splits)
    show ?thesis
    proof (cases r)
      case (Inl e)
      with Pair first show ?thesis by (auto simp: ensureCollection_twice_def sent_since_append)
    next
      case (Inr u)
      with Pair have r: "ensureCollection w t = (Inr (), t1)" by simp
      from exists [OF f r] obtain d where "w t1 GetCollection = Resolved d" ..
      then have "snd (ensureCollection w t1) = t1 @ [(GetCollection, Resolved d)]"
        by (simp add: ensureCollection_cases)
      with r first show ?thesis
        by (auto simp: ensureCollection_twice_def sent_since_append creation_requests_def)
    qed
  qed
  have fails: "(\<exists>e. fst (ensureCollection w t) = Inl e) \<longleftrightarrow>
      w t GetCollection = Rejected \<and>
      w (t @ [(GetCollection, Rejected)]) (PutCollection 1024 ''Cosine'') = Rejected"
    by (auto simp: ensureCollection_cases split: outcome.splits)
  have absent: "w t GetCollection = Rejected \<longrightarrow>
      sent_since t (snd (ensureCollection w t)) = [GetCollection, PutCollection 1024 ''Cosine'']"
    by (auto simp: ensureCollection_cases sent_since_append split: outcome.splits)
  from second twice fails absent show ?thesis by blast
qed

theorem ensureCollection_idempotent_witness:
  "faithful_store fresh_store \<and>
   ensureCollection fresh_store [] =
     (Inr (), [(GetCollection, Rejected),
               (PutCollection 1024 ''Cosine'', Resolved (Obj no_members))]) \<and>
   sent_since [] (snd (ensureCollection_twice fresh_store []))
     = [GetCollection, PutCollection 1024 ''Cosine'', GetCollection] \<and>
   creation_requests (sent_since [] (snd (ensureCollection_twice fresh_store []))) \<le> 1 \<and>
   sent_since [(GetCollection, Rejected), (PutCollection 1024 ''Cosine'', Resolved (Obj no_members))]
     (snd (ensureCollection fresh_store
        [(GetCollection, Rejected), (PutCollection 1024 ''Cosine'', Resolved (Obj no_members))]))
     = [GetCollection]"
proof -
  let ?t1 = "[(GetCollection, Rejected), (PutCollection 1024 ''Cosine'', Resolved (Obj no_members))]"
  have f: "faithful_store fresh_store"
    by (simp add: faithful_store_def fresh_store_def)
  have r: "ensureCollection fresh_store [] = (Inr (), ?t1)"
    by (simp add: ensureCollection_def http_def fresh_store_def collection_seen_def)
  have s: "sent_since [] (snd (ensureCollection_twice fresh_store []))
     = [GetCollection, PutCollection 1024 ''Cosine'', GetCollection]"
    by (simp add: ensureCollection_twice_def ensureCollection_def http_def fresh_store_def
                  collection_seen_def sent_since_def Let_def)
  from ensureCollection_idempotent [of fresh_store "[]"] f r
  have "creation_requests (sent_since [] (snd (ensureCollection_twice fresh_store []))) \<le> 1"
    and "sent_since ?t1 (snd (ensureCollection fresh_store ?t1)) = [GetCollection]"
    by blast+
  with f r s show ?thesis by blast
qed

text \<open>
  Claim C7.  The claim says that the generator fails when the response of the
  \<^verbatim>\<open>ollama\<close> protocol lacks the generated text.  For a response object without the
  member \<^verbatim>\<open>response\<close>, \<^verbatim>\<open>generateAnswer\<close> returns undefined and throws nothing; under the
  other protocol the same response makes it throw.
\<close>

theorem ollama_missing_response_returns_undefined:
  "generateAnswer default_config (service_world Rejected (Resolved (Obj no_members)) []) []
     ''What is the leave policy?''
   = (Inr None,
      [(PostGenerate ''llama3.1:8b-instruct'' ''What is the leave policy?'',
        Resolved (Obj no_members))]) \<and>
   fst (generateAnswer (default_config\<lparr>LLM_PROVIDER := ''openai_compat''\<rparr>)
          (service_world Rejected (Resolved (Obj no_members)) []) []
          ''What is the leave policy?'')
   = Inl (Error ''Invalid response from LLM provider'')"
  by (simp add: generateAnswer_def http_def service_world_def default_config_def no_members_def)




text \<open>
  Claim C9.  With a rerank service configured that answers with a \<^verbatim>\<open>scores\<close> array,
  the result of \<^verbatim>\<open>rerankContexts\<close> is a function of the scores alone; it has as many
  elements as there are scores and is a permutation of their indices.  With more
  scores than contexts it holds an index that no context has, and with fewer it
  misses the index of a context.
\<close>

theorem rerank_order_from_scores_alone:
  assumes "RERANK_BASE_URL cfg \<noteq> []"
    and "w t (PostRerank query contexts) = Resolved (Obj obj)"
    and "scores obj = Some scs"
  shows "fst (rerankContexts cfg w t query contexts) = order_by_scores scs \<and>
         length (order_by_scores scs) = length scs \<and>
         set (order_by_scores scs) = {0..<length scs} \<and>
         distinct (order_by_scores scs) \<and>
         (length contexts < length scs \<longrightarrow>
            (\<exists>i\<in>set (order_by_scores scs). \<not> i < length contexts)) \<and>
         (length scs < length contexts \<longrightarrow>
            (\<exists>i<length contexts. i \<notin> set (order_by_scores scs)))"
proof -
  have "fst (rerankContexts cfg w t query contexts) = order_by_scores scs"
    using assms by (simp add: rerankContexts_def http_def Let_def)
  moreover have "length contexts < length scs \<longrightarrow>
            (\<exists>i\<in>set (order_by_scores scs). \<not> i < length contexts)"
    by (auto simp: set_order_by_scores intro: bexI [of _ "length contexts"])
  moreover have "length scs < length contexts \<longrightarrow>
            (\<exists>i<length contexts. i \<notin> set (order_by_scores scs))"
    by (auto simp: set_order_by_scores intro: exI [of _ "length scs"])
  ultimately show ?thesis
    using set_order_by_scores [of scs] distinct_order_by_scores [of scs]
          length_order_by_scores [of scs]
    by blast
qed

theorem rerank_order_from_scores_alone_witness:
  "RERANK_BASE_URL rerank_config \<noteq> [] \<and>
   fst (rerankContexts rerank_config
          (service_world (scores_outcome [0.8, 0.2, 0.1, 0.9, 0.5]) Rejected []) []
          ''q'' [''A'', ''B'']) = [3, 0, 4, 1, 2] \<and>
   length (order_by_scores [0.8, 0.2, 0.1, 0.9, 0.5]) = 5 \<and>
   (\<exists>i\<in>set (order_by_scores [0.8, 0.2, 0.1, 0.9, 0.5]). \<not> i < length [''A'', ''B''])"
proof -
  let ?w = "service_world (scores_outcome [0.8, 0.2, 0.1, 0.9, 0.5]) Rejected []"
  let ?obj = "no_members\<lparr>scores := Some [0.8, 0.2, 0.1, 0.9, 0.5]\<rparr>"
  have a: "RERANK_BASE_URL rerank_config \<noteq> []" by (simp add: rerank_config_def)
  have b: "?w [] (PostRerank ''q'' [''A'', ''B'']) = Resolved (Obj ?obj)"
    by (simp add: service_world_def scores_outcome_def)
  have c: "scores ?obj = Some [0.8, 0.2, 0.1, 0.9, 0.5]" by simp
  have e: "order_by_scores [0.8, 0.2, 0.1, 0.9, 0.5] = [3, 0, 4, 1, 2]"
    by (simp add: order_by_scores_def js_sort_def)
  note th = rerank_order_from_scores_alone
         [where cfg = rerank_config and w = ?w and t = "[]" and query = "''q''"
            and contexts = "[''A'', ''B'']" and obj = ?obj
            and scs = "[0.8, 0.2, 0.1, 0.9, 0.5]", OF a b c]
  from th have 1: "fst (rerankContexts rerank_config ?w [] ''q'' [''A'', ''B''])
                     = order_by_scores [0.8, 0.2, 0.1, 0.9, 0.5]"
    by blast
  from th have 2: "length (order_by_scores [0.8, 0.2, 0.1, 0.9, 0.5])
                     = length [0.8, 0.2, 0.1, 0.9, 0.5 :: real]"
    by blast
  have lt: "length [''A'', ''B''] < length [0.8, 0.2, 0.1, 0.9, 0.5 :: real]" by simp
  from th have "length [''A'', ''B''] < length [0.8, 0.2, 0.1, 0.9, 0.5 :: real] \<longrightarrow>
      (\<exists>i\<in>set (order_by_scores [0.8, 0.2, 0.1, 0.9, 0.5]). \<not> i < length [''A'', ''B''])"
    by blast
  with lt have 3: "\<exists>i\<in>set (order_by_scores [0.8, 0.2, 0.1, 0.9, 0.5]).
                     \<not> i < length [''A'', ''B'']"
    by blast
  from 1 e have r1: "fst (rerankContexts rerank_config ?w [] ''q'' [''A'', ''B''])
                      = [3, 0, 4, 1, 2]"
    by simp
  from 2 have r2: "length (order_by_scores [0.8, 0.2, 0.1, 0.9, 0.5]) = 5" by simp
  from a r1 r2 3 show ?thesis by blast
qed

text \<open>
  Claim C10.  A query whose category is the empty string is handled as the same query
  without a category, reply and requests alike, and every search request of a query
  carries no filter when the category is missing or empty and the category otherwise.
\<close>

theorem falsy_category_no_filter:
  "chat_query cfg w t (Some (req\<lparr>req_filter_category := Some []\<rparr>))
     = chat_query cfg w t (Some (req\<lparr>req_filter_category := None\<rparr>)) \<and>
   (\<forall>v k f. PostSearch v k f \<in> set (sent_since t (snd (chat_query cfg w t (Some req)))) \<longrightarrow>
      f = (case req_filter_category req of
             None \<Rightarrow> None
           | Some c \<Rightarrow> if c = [] then None else Some c))"
proof -
  have sf: "search_filter (Some []) = search_filter None"
    by (simp add: search_filter_def truthy_def)
  have "chat_query_hits cfg w t q (Some []) = chat_query_hits cfg w t q None" for q
    unfolding chat_query_hits_def sf ..
  then have "chat_query cfg w t (Some (req\<lparr>req_filter_category := Some []\<rparr>))
     = chat_query cfg w t (Some (req\<lparr>req_filter_category := None\<rparr>))"
    by (simp add: chat_query_def chat_query_try_def)
  moreover have "search_filter (req_filter_category req) = (case req_filter_category req of
             None \<Rightarrow> None
           | Some c \<Rightarrow> if c = [] then None else Some c)"
    by (simp add: search_filter_def truthy_def split: option.splits)
  ultimately show ?thesis using chat_query_search_filter [of _ _ _ t cfg w req] by metis
qed

theorem falsy_category_no_filter_witness:
  "chat_query default_config (service_world Rejected Rejected []) []
     (Some \<lparr>req_query = Some ''q'', req_filter_category = Some []\<rparr>)
   = chat_query default_config (service_world Rejected Rejected []) []
       (Some \<lparr>req_query = Some ''q'', req_filter_category = None\<rparr>) \<and>
   sent_since [] (snd (chat_query default_config (service_world Rejected Rejected []) []
                         (Some \<lparr>req_query = Some ''q'', req_filter_category = Some []\<rparr>)))
     = [GetCollection, PostEmbed [''q''], PostSearch (Some [0.5, 0.25]) 20 None] \<and>
   sent_since [] (snd (chat_query default_config (service_world Rejected Rejected []) []
                         (Some \<lparr>req_query = Some ''q'', req_filter_category = Some ''hr''\<rparr>)))
     = [GetCollection, PostEmbed [''q''], PostSearch (Some [0.5, 0.25]) 20 (Some ''hr'')]"
proof -
  let ?w = "service_world Rejected Rejected []"
  let ?req = "\<lparr>req_query = Some ''q'', req_filter_category = Some ''hr''\<rparr>"
  from falsy_category_no_filter [of default_config ?w "[]" ?req]
  have e: "chat_query default_config ?w [] (Some \<lparr>req_query = Some ''q'', req_filter_category = Some []\<rparr>)
           = chat_query default_config ?w [] (Some \<lparr>req_query = Some ''q'', req_filter_category = None\<rparr>)"
    by simp
  have n: "sent_since [] (snd (chat_query default_config ?w []
                         (Some \<lparr>req_query = Some ''q'', req_filter_category = None\<rparr>)))
     = [GetCollection, PostEmbed [''q''], PostSearch (Some [0.5, 0.25]) 20 None]"
    by (simp add: run_defs eval_defs)
  have h: "sent_since [] (snd (chat_query default_config ?w [] (Some ?req)))
     = [GetCollection, PostEmbed [''q''], PostSearch (Some [0.5, 0.25]) 20 (Some ''hr'')]"
    by (simp add: run_defs eval_defs)
  from e n h show ?thesis by simp
qed

end
